theory Spec2Isabelle
  imports Main "HOL-Library.Multiset"
begin

section \<open>Data model of the library (model.ts)\<close>

text \<open>
  A \<open>Timestamp\<close> is a nanosecond count. Strings are lists of code units; only code units
  below 256 occur in the examples. The four node interfaces of the source form a
  discriminated union over \<open>NodeType\<close>: the variant fields are the \<open>body\<close> of a node and
  the \<open>type\<close> field is read off the body. The fields \<open>id\<close>, \<open>type\<close> and \<open>tags\<close> of the
  source are called \<open>node_id\<close>, \<open>node_type\<close> and \<open>node_tags\<close> here, those of a file and a
  tag carry the prefixes \<open>file_\<close> and \<open>tag_\<close>. The field \<open>depth\<close> is the property that
  tree.ts adds to a node object (\<open>None\<close>: the object has no such property).
\<close>

type_synonym Timestamp = int

datatype NodeType = NodeType_Text | NodeType_Image | NodeType_Anchor | NodeType_Directory

record AnchorContent =
  contentURL :: string
  contentType :: string
  contentTitle :: "string option"
  contentDescription :: "string option"
  contentImageFileID :: "string option"
  contentModified :: "Timestamp option"
  contentAccessed :: Timestamp

datatype NodeBody =
    TextBody string
  | ImageBody string "string option"
  | AnchorBody AnchorContent
  | DirectoryBody string

record Node =
  node_id :: string
  created :: Timestamp
  modified :: Timestamp
  node_tags :: "string list option"
  index :: int
  parentID :: "string option"
  body :: NodeBody
  depth :: "int option"

fun body_type :: "NodeBody \<Rightarrow> NodeType" where
  "body_type (TextBody c) = NodeType_Text"
| "body_type (ImageBody f d) = NodeType_Image"
| "body_type (AnchorBody a) = NodeType_Anchor"
| "body_type (DirectoryBody n) = NodeType_Directory"

definition node_type :: "Node \<Rightarrow> NodeType" where
  "node_type n = body_type (body n)"

text \<open>\<open>(n as DirectoryNode).name\<close>: \<open>undefined\<close> on a node of another type.\<close>

fun body_name :: "NodeBody \<Rightarrow> string option" where
  "body_name (DirectoryBody n) = Some n"
| "body_name b = None"

definition name :: "Node \<Rightarrow> string option" where
  "name n = body_name (body n)"

record File =
  file_id :: string
  file_type :: string
  file_name :: "string option"
  file_url :: "string option"
  file_modified :: "Timestamp option"
  file_accessed :: Timestamp

record Tag =
  tag_id :: string
  tag_name :: string

text \<open>
  The store part of class \<open>Model\<close>: the three observable collections. Two counters
  record what the operations ask of their collaborators: \<open>removed_blobs\<close> lists the
  arguments of the calls of \<open>bridge.removeFile\<close>, in order, and \<open>save_calls\<close> counts the
  calls of \<open>save()\<close>, which touches none of the collections (its protocol is the subject
  of the section on persistence).

  \<open>nodes_frozen\<close> is a state of the node objects, not a field of theirs. \<open>addNode\<close>,
  \<open>removeNode\<close> and \<open>setParent\<close> publish the result of immer's \<open>produce\<close>, which by default
  freezes the array it returns and every object in it: after each of them all node
  objects of the snapshot are frozen, and an assignment to a property of one of them
  throws a TypeError in strict-mode code. A snapshot that is set directly, as the empty
  array of the constructor and the array of \<open>loadLibrary\<close> are, has no frozen object.
\<close>

record Model =
  nodes :: "Node list"
  files :: "File list"
  tags :: "Tag list"
  removed_blobs :: "string list"
  save_calls :: nat
  nodes_frozen :: bool

definition empty_model :: Model where
  "empty_model = \<lparr>nodes = [], files = [], tags = [], removed_blobs = [], save_calls = 0,
     nodes_frozen = False\<rparr>"


datatype js_error = TypeError | Error

subsection \<open>Array helpers\<close>

text \<open>\<open>Array.prototype.findIndex\<close>; \<open>None\<close> stands for the result \<open>-1\<close>.\<close>

fun findIndex :: "('a \<Rightarrow> bool) \<Rightarrow> 'a list \<Rightarrow> nat option" where
  "findIndex p [] = None"
| "findIndex p (x # xs) =
     (if p x then Some 0 else (case findIndex p xs of None \<Rightarrow> None | Some i \<Rightarrow> Some (Suc i)))"

text \<open>\<open>xs.splice(i, 1)\<close> for an index \<open>i\<close> inside the array.\<close>

definition splice1 :: "nat \<Rightarrow> 'a list \<Rightarrow> 'a list" where
  "splice1 i xs = take i xs @ drop (Suc i) xs"

subsection \<open>Nodes\<close>

definition save :: "Model \<Rightarrow> Model" where
  "save m = m\<lparr>save_calls := Suc (save_calls m)\<rparr>"

definition addNode :: "Node \<Rightarrow> Model \<Rightarrow> Model" where
  "addNode node m = m\<lparr>nodes := nodes m @ [node], nodes_frozen := True\<rparr>"

definition addFile :: "File \<Rightarrow> Model \<Rightarrow> Model" where
  "addFile file m = m\<lparr>files := files m @ [file]\<rparr>"

definition getNextIndex :: "Model \<Rightarrow> int" where
  "getNextIndex m = int (length (nodes m))"

text \<open>\<open>if (tags?.length == 0) { tags = undefined; }\<close>\<close>

fun normalize_tags :: "string list option \<Rightarrow> string list option" where
  "normalize_tags (Some []) = None"
| "normalize_tags t = t"

text \<open>
  Each constructor draws one identifier from \<open>uuidv4()\<close>; it is the first argument.
  The constructors return the new node and the updated model.
\<close>

definition addTextNode ::
  "string \<Rightarrow> string \<Rightarrow> Timestamp \<Rightarrow> string option \<Rightarrow> string list option \<Rightarrow> Model \<Rightarrow> Node \<times> Model" where
  "addTextNode uid text timeStamp parent tgs m =
     (let node = \<lparr>node_id = uid, created = timeStamp, modified = timeStamp,
                  node_tags = normalize_tags tgs, index = getNextIndex m, parentID = parent,
                  body = TextBody text, depth = None\<rparr>
      in (node, save (addNode node m)))"

definition addImageNode ::
  "string \<Rightarrow> File \<Rightarrow> Timestamp \<Rightarrow> string option \<Rightarrow> string list option \<Rightarrow> Model \<Rightarrow> Node \<times> Model" where
  "addImageNode uid file timeStamp parent tgs m =
     (let node = \<lparr>node_id = uid, created = timeStamp, modified = timeStamp,
                  node_tags = normalize_tags tgs, index = getNextIndex m, parentID = parent,
                  body = ImageBody (file_id file) None, depth = None\<rparr>
      in (node, save (addNode node (addFile file m))))"

definition addDirectoryNode ::
  "string \<Rightarrow> string \<Rightarrow> Timestamp \<Rightarrow> string option \<Rightarrow> string list option \<Rightarrow> Model \<Rightarrow> Node \<times> Model" where
  "addDirectoryNode uid nm timeStamp parent tgs m =
     (let node = \<lparr>node_id = uid, created = timeStamp, modified = timeStamp,
                  node_tags = normalize_tags tgs, index = getNextIndex m, parentID = parent,
                  body = DirectoryBody nm, depth = None\<rparr>
      in (node, addNode node m))"

text \<open>The object literal of \<open>addAnchorNode\<close> has no \<open>tags\<close> property.\<close>

definition addAnchorNode ::
  "string \<Rightarrow> AnchorContent \<Rightarrow> Timestamp \<Rightarrow> string option \<Rightarrow> string list option \<Rightarrow> Model \<Rightarrow> Node \<times> Model" where
  "addAnchorNode uid anchor timeStamp parent tgs m =
     (let node = \<lparr>node_id = uid, created = timeStamp, modified = timeStamp,
                  node_tags = None, index = getNextIndex m, parentID = parent,
                  body = AnchorBody anchor, depth = None\<rparr>
      in (node, save (addNode node m)))"

subsection \<open>Files\<close>

text \<open>
  \<open>removeFile\<close> reads \<open>this.files.get()[found].id\<close>: when no file has the identifier,
  \<open>found\<close> is \<open>-1\<close>, the element is \<open>undefined\<close> and the property access throws a
  TypeError, before anything is changed.
\<close>

definition removeFile :: "string \<Rightarrow> Model \<Rightarrow> js_error + Model" where
  "removeFile fid m =
     (case findIndex (\<lambda>f. file_id f = fid) (files m) of
        None \<Rightarrow> Inl TypeError
      | Some found \<Rightarrow>
          Inr (save (m\<lparr>removed_blobs := removed_blobs m @ [file_id (files m ! found)],
                       files := splice1 found (files m)\<rparr>)))"

definition getFile :: "string \<Rightarrow> Model \<Rightarrow> File option" where
  "getFile fid m = find (\<lambda>f. file_id f = fid) (files m)"

subsection \<open>Removing a node\<close>

text \<open>The loop of \<open>removeNode\<close> over the remaining nodes: \<open>if (n.index > index) n.index--\<close>.\<close>

definition renumber :: "int \<Rightarrow> Node \<Rightarrow> Node" where
  "renumber k n = (if index n > k then n\<lparr>index := index n - 1\<rparr> else n)"

text \<open>The two cascades of \<open>removeNode\<close>, each a no-op on a node of another type.\<close>

fun cascade_image :: "NodeBody \<Rightarrow> Model \<Rightarrow> js_error + Model" where
  "cascade_image (ImageBody fid d) m = removeFile fid m"
| "cascade_image b m = Inr m"

fun cascade_anchor :: "NodeBody \<Rightarrow> Model \<Rightarrow> js_error + Model" where
  "cascade_anchor (AnchorBody a) m =
     (case contentImageFileID a of None \<Rightarrow> Inr m | Some fid \<Rightarrow> removeFile fid m)"
| "cascade_anchor b m = Inr m"

text \<open>
  \<open>removeNode\<close> reads \<open>found.type\<close>: when no node has the identifier, \<open>found\<close> is
  \<open>undefined\<close> and the access throws a TypeError. An exception of a cascade leaves
  \<open>removeNode\<close> before the node list is touched.
\<close>

definition removeNode :: "string \<Rightarrow> Model \<Rightarrow> js_error + Model" where
  "removeNode i m =
     (case findIndex (\<lambda>n. node_id n = i) (nodes m) of
        None \<Rightarrow> Inl TypeError
      | Some foundIndex \<Rightarrow>
          (let found = nodes m ! foundIndex in
           case cascade_image (body found) m of
             Inl e \<Rightarrow> Inl e
           | Inr m1 \<Rightarrow>
               (case cascade_anchor (body found) m1 of
                  Inl e \<Rightarrow> Inl e
                | Inr m2 \<Rightarrow>
                    Inr (save (m2\<lparr>nodes :=
                      map (renumber (index found)) (splice1 foundIndex (nodes m2)),
                      nodes_frozen := True\<rparr>)))))"

definition getNode :: "string \<Rightarrow> Model \<Rightarrow> Node option" where
  "getNode i m = find (\<lambda>n. node_id n = i) (nodes m)"


definition getChildDirectories :: "string option \<Rightarrow> Model \<Rightarrow> Node list" where
  "getChildDirectories parent m =
     filter (\<lambda>n. node_type n = NodeType_Directory \<and> parentID n = parent) (nodes m)"

subsection \<open>Sequences of add and remove operations\<close>

text \<open>
  One call of a constructor or of \<open>removeNode\<close>. A call that throws leaves the store as it
  was when the exception left it, which is the store before the call.
\<close>

datatype NodeOp =
    AddText string string Timestamp "string option" "string list option"
  | AddImage string File Timestamp "string option" "string list option"
  | AddDirectory string string Timestamp "string option" "string list option"
  | AddAnchor string AnchorContent Timestamp "string option" "string list option"
  | Remove string

fun apply_op :: "NodeOp \<Rightarrow> Model \<Rightarrow> Model" where
  "apply_op (AddText uid text ts parent tgs) m = snd (addTextNode uid text ts parent tgs m)"
| "apply_op (AddImage uid file ts parent tgs) m = snd (addImageNode uid file ts parent tgs m)"
| "apply_op (AddDirectory uid nm ts parent tgs) m = snd (addDirectoryNode uid nm ts parent tgs m)"
| "apply_op (AddAnchor uid anchor ts parent tgs) m = snd (addAnchorNode uid anchor ts parent tgs m)"
| "apply_op (Remove i) m = (case removeNode i m of Inl e \<Rightarrow> m | Inr m' \<Rightarrow> m')"

fun run_ops :: "NodeOp list \<Rightarrow> Model \<Rightarrow> Model" where
  "run_ops [] m = m"
| "run_ops (op # ops) m = run_ops ops (apply_op op m)"

definition index_dense :: "Node list \<Rightarrow> bool" where
  "index_dense ns = (mset (map index ns) = mset (map int [0..<length ns]))"

subsection \<open>Reparenting\<close>

text \<open>
  \<open>setParent\<close> assigns to \<open>n[foundIndex].parentID\<close>: when no node has the identifier,
  \<open>n[-1]\<close> is \<open>undefined\<close> and the assignment throws a TypeError.
\<close>

definition setParent :: "string \<Rightarrow> string \<Rightarrow> Model \<Rightarrow> js_error + Model" where
  "setParent i parent m =
     (case findIndex (\<lambda>n. node_id n = i) (nodes m) of
        None \<Rightarrow> Inl TypeError
      | Some foundIndex \<Rightarrow>
          Inr (save (m\<lparr>nodes :=
            (nodes m)[foundIndex := (nodes m ! foundIndex)\<lparr>parentID := Some parent\<rparr>],
            nodes_frozen := True\<rparr>)))"

subsection \<open>Path of a directory\<close>

text \<open>
  \<open>Array.prototype.join\<close> on an array whose elements are strings or \<open>undefined\<close>; an
  \<open>undefined\<close> element is joined as the empty string.
\<close>

fun js_str :: "string option \<Rightarrow> string" where
  "js_str None = []"
| "js_str (Some s) = s"

fun js_join :: "string \<Rightarrow> string option list \<Rightarrow> string" where
  "js_join sep [] = []"
| "js_join sep [x] = js_str x"
| "js_join sep (x # y # ys) = js_str x @ sep @ js_join sep (y # ys)"

text \<open>
  The \<open>while\<close> loop of \<open>getPath\<close>. It does not end when the parent references form a
  cycle: the result \<open>None\<close> is the loop that runs forever, \<open>Some (Inl Error)\<close> is
  \<open>throw new Error()\<close>, \<open>Some (Inr dirs)\<close> the array \<open>dirs\<close> when the loop is left.
\<close>

partial_function (option) getPath_loop ::
  "Node list \<Rightarrow> string option list \<Rightarrow> string option \<Rightarrow> (js_error + string option list) option" where
  "getPath_loop ns dirs dirID =
     (case dirID of
        None \<Rightarrow> Some (Inr dirs)
      | Some d \<Rightarrow>
          (case find (\<lambda>n. node_id n = d) ns of
             None \<Rightarrow> Some (Inl Error)
           | Some found \<Rightarrow> getPath_loop ns (name found # dirs) (parentID found)))"

definition ReservedID_Trash :: string where
  "ReservedID_Trash = ''trash''"

definition getPath :: "string \<Rightarrow> Model \<Rightarrow> (js_error + string) option" where
  "getPath directoryID m =
     (if directoryID = ReservedID_Trash then Some (Inr ''Trash'')
      else (case getPath_loop (nodes m) [] (Some directoryID) of
              None \<Rightarrow> None
            | Some (Inl e) \<Rightarrow> Some (Inl e)
            | Some (Inr dirs) \<Rightarrow> Some (Inr (''/'' @ js_join ''/'' dirs))))"

text \<open>
  \<open>is_chain ns up ds\<close>: the nodes \<open>ds\<close>, listed from the outermost to the innermost, are
  what a lookup by identifier finds in \<open>ns\<close>, the first has the parent reference \<open>up\<close>
  and each of the others refers to the one before it.
\<close>

fun is_chain :: "Node list \<Rightarrow> string option \<Rightarrow> Node list \<Rightarrow> bool" where
  "is_chain ns up [] = True"
| "is_chain ns up (d # ds) =
     (find (\<lambda>n. node_id n = node_id d) ns = Some d \<and> parentID d = up \<and>
      is_chain ns (Some (node_id d)) ds)"

subsection \<open>Comparison of names\<close>

text \<open>
  \<open>String.prototype.localeCompare\<close> belongs to the platform, not to the repository. The
  source calls it as \<open>a.localeCompare(b, undefined, { sensitivity: 'accent' })\<close> and tests
  the result against \<open>0\<close>. This test is a parameter \<open>cmp\<close> of the functions below:
  \<open>cmp a b\<close> says that the result is \<open>0\<close>.

  ECMA-402 on the value \<open>accent\<close> of the option: only strings that differ in base letters
  or in accents and other diacritic marks compare as unequal (a \<noteq> b, a \<noteq> \<open>\<aacute>\<close>,
  a = A). For strings of plain characters, which are the letters A to Z and a to z, the
  digits, the blank and the letters of Latin-1 that carry a grave, an acute, a circumflex,
  a tilde, a diaeresis, a ring or a cedilla, this means that two strings compare as equal
  exactly when they are equal up to the case of their letters. \<open>accent_sensitivity cmp\<close>
  says this of \<open>cmp\<close>, for a host locale that orders the Latin letters as the root
  collation does. Nothing is said about \<open>cmp\<close> on other strings.
\<close>

definition is_upper :: "char \<Rightarrow> bool" where
  "is_upper c = (let n = (of_char c :: nat) in
     (65 \<le> n \<and> n \<le> 90) \<or> (192 \<le> n \<and> n \<le> 222 \<and> n \<noteq> 215))"

definition to_lower :: "char \<Rightarrow> char" where
  "to_lower c = (if is_upper c then char_of ((of_char c :: nat) + 32) else c)"

definition plain_char :: "char \<Rightarrow> bool" where
  "plain_char c = (let n = (of_char (to_lower c) :: nat) in
     n = 32 \<or> (48 \<le> n \<and> n \<le> 57) \<or> (97 \<le> n \<and> n \<le> 122) \<or>
     (224 \<le> n \<and> n \<le> 229) \<or> (231 \<le> n \<and> n \<le> 239) \<or> (241 \<le> n \<and> n \<le> 246) \<or>
     (249 \<le> n \<and> n \<le> 253) \<or> n = 255)"

definition plain :: "string \<Rightarrow> bool" where
  "plain s = list_all plain_char s"

definition accent_sensitivity :: "(string \<Rightarrow> string \<Rightarrow> bool) \<Rightarrow> bool" where
  "accent_sensitivity cmp =
     (\<forall>a b. plain a \<and> plain b \<longrightarrow> cmp a b = (map to_lower a = map to_lower b))"

text \<open>
  An instance of the parameter, for the examples: the comparison of strings of Latin-1
  characters by the root collation at the second strength. Control characters other than
  the tabulator, the line breaks and the next-line character are ignored, and so is the
  soft hyphen; the no-break space counts as the blank, the ordinal indicators as the
  letters a and o, the superscript digits as the digits, an upper-case letter as the
  lower-case one; every other character counts as itself. The examples use it on strings
  of plain characters only.
\<close>

definition ignorable :: "char \<Rightarrow> bool" where
  "ignorable c = (let n = (of_char c :: nat) in
     n \<le> 8 \<or> (14 \<le> n \<and> n \<le> 31) \<or> (127 \<le> n \<and> n \<le> 159 \<and> n \<noteq> 133) \<or> n = 173)"

definition accent_key :: "char \<Rightarrow> char" where
  "accent_key c = (let n = (of_char c :: nat) in
     if n = 160 then CHR '' ''
     else if n = 170 then CHR ''a''
     else if n = 186 then CHR ''o''
     else if n = 185 then CHR ''1''
     else if n = 178 then CHR ''2''
     else if n = 179 then CHR ''3''
     else to_lower c)"

definition accent_compare :: "string \<Rightarrow> string \<Rightarrow> bool" where
  "accent_compare a b =
     (map accent_key (filter (\<lambda>c. \<not> ignorable c) a) = map accent_key (filter (\<lambda>c. \<not> ignorable c) b))"

subsection \<open>Tags\<close>

definition createTag :: "string \<Rightarrow> string \<Rightarrow> Model \<Rightarrow> string \<times> Model" where
  "createTag uid nm m = (uid, save (m\<lparr>tags := tags m @ [\<lparr>tag_id = uid, tag_name = nm\<rparr>]\<rparr>))"

definition findTag :: "(string \<Rightarrow> string \<Rightarrow> bool) \<Rightarrow> string \<Rightarrow> Model \<Rightarrow> Tag option" where
  "findTag cmp nm m = find (\<lambda>t. cmp (tag_name t) nm) (tags m)"

definition getTag :: "string \<Rightarrow> Model \<Rightarrow> Tag option" where
  "getTag i m = find (\<lambda>t. tag_id t = i) (tags m)"

subsection \<open>Directories\<close>

text \<open>\<open>(n as DirectoryNode).name.localeCompare(name, ...) == 0\<close>\<close>

definition name_matches :: "(string \<Rightarrow> string \<Rightarrow> bool) \<Rightarrow> Node \<Rightarrow> string \<Rightarrow> bool" where
  "name_matches cmp n nm = (case name n of None \<Rightarrow> False | Some x \<Rightarrow> cmp x nm)"

definition findDirectory ::
  "(string \<Rightarrow> string \<Rightarrow> bool) \<Rightarrow> string option \<Rightarrow> string \<Rightarrow> Model \<Rightarrow> Node option" where
  "findDirectory cmp parent nm m =
     find (\<lambda>n. node_type n = NodeType_Directory \<and> parentID n = parent \<and> name_matches cmp n nm)
       (nodes m)"

text \<open>\<open>path.split('/')\<close>: the pieces between the separators, the empty ones included.\<close>

fun split_on :: "char \<Rightarrow> string \<Rightarrow> string list" where
  "split_on c [] = [[]]"
| "split_on c (x # xs) =
     (if x = c then [] # split_on c xs
      else (case split_on c xs of [] \<Rightarrow> [[x]] | s # ss \<Rightarrow> (x # s) # ss))"

text \<open>\<open>path.split('/').filter(d => d.length > 0)\<close>\<close>

definition path_segments :: "string \<Rightarrow> string list" where
  "path_segments path = filter (\<lambda>d. length d > 0) (split_on CHR ''/'' path)"

text \<open>
  The loop of \<open>createDirectory\<close> over the segments. \<open>uuid k\<close> and \<open>now k\<close> are the \<open>k\<close>-th
  results that this call gets from \<open>uuidv4()\<close> and from \<open>bridge.now()\<close>; the number of
  results drawn so far is threaded through. When no directory is found the call is
  suspended at \<open>await bridge.now()\<close>, and what runs in the meantime may change the store:
  \<open>others k m\<close> is the store that the call finds when it resumes from the \<open>k\<close>-th
  suspension, having left the store \<open>m\<close>. The node is added to that store.
\<close>

fun createDirectory_loop ::
  "(string \<Rightarrow> string \<Rightarrow> bool) \<Rightarrow> (nat \<Rightarrow> string) \<Rightarrow> (nat \<Rightarrow> Timestamp) \<Rightarrow> (nat \<Rightarrow> Model \<Rightarrow> Model)
     \<Rightarrow> string list \<Rightarrow> string option \<Rightarrow> nat \<Rightarrow> Model \<Rightarrow> string option \<times> nat \<times> Model" where
  "createDirectory_loop cmp uuid now others [] parent k m = (parent, k, m)"
| "createDirectory_loop cmp uuid now others (dir # dirs) parent k m =
     (case findDirectory cmp parent dir m of
        None \<Rightarrow>
          (case addDirectoryNode (uuid k) dir (now k) parent None (others k m) of
             (node, m') \<Rightarrow>
               createDirectory_loop cmp uuid now others dirs (Some (node_id node)) (Suc k) m')
      | Some found \<Rightarrow> createDirectory_loop cmp uuid now others dirs (Some (node_id found)) k m)"

definition createDirectory ::
  "(string \<Rightarrow> string \<Rightarrow> bool) \<Rightarrow> (nat \<Rightarrow> string) \<Rightarrow> (nat \<Rightarrow> Timestamp) \<Rightarrow> (nat \<Rightarrow> Model \<Rightarrow> Model)
     \<Rightarrow> string \<Rightarrow> nat \<Rightarrow> Model \<Rightarrow> string option \<times> nat \<times> Model" where
  "createDirectory cmp uuid now others path k m =
     (case createDirectory_loop cmp uuid now others (path_segments path) None k m of
        (parent, k', m') \<Rightarrow> (parent, k', save m'))"

text \<open>Nothing else runs while a call of \<open>createDirectory\<close> is suspended.\<close>

definition no_interleaving :: "nat \<Rightarrow> Model \<Rightarrow> Model" where
  "no_interleaving k m = m"

text \<open>
  \<open>resolves cmp ns parent ds r\<close>: going down from \<open>parent\<close> along the segments \<open>ds\<close> in the
  node list \<open>ns\<close>, at each segment to the first node that is a directory, has the current
  identifier as its parent reference and a name that compares as equal to the segment,
  ends at the identifier \<open>r\<close>.
\<close>

fun resolves ::
  "(string \<Rightarrow> string \<Rightarrow> bool) \<Rightarrow> Node list \<Rightarrow> string option \<Rightarrow> string list \<Rightarrow> string option \<Rightarrow> bool" where
  "resolves cmp ns parent [] r = (r = parent)"
| "resolves cmp ns parent (d # ds) r =
     (case find (\<lambda>n. node_type n = NodeType_Directory \<and> parentID n = parent \<and>
                    (case name n of None \<Rightarrow> False | Some x \<Rightarrow> cmp x d)) ns of
        None \<Rightarrow> False
      | Some n \<Rightarrow> resolves cmp ns (Some (node_id n)) ds r)"

subsection \<open>Stores used as examples\<close>

text \<open>Three insertions, and the same followed by the removal of the first node.\<close>

definition ex_store :: Model where
  "ex_store = run_ops [AddText ''n1'' ''note'' 10 None None,
                       AddDirectory ''n2'' ''dir'' 11 None None,
                       AddText ''n3'' ''inner'' 12 (Some ''n2'') (Some [])] empty_model"

definition ex_ops :: "NodeOp list" where
  "ex_ops = [AddText ''n1'' ''note'' 10 None None,
             AddDirectory ''n2'' ''dir'' 11 None None,
             AddText ''n3'' ''inner'' 12 (Some ''n2'') (Some []),
             Remove ''n1'']"

definition ex_image_file :: File where
  "ex_image_file = \<lparr>file_id = ''f1'', file_type = ''image/png'', file_name = Some ''a.png'',
     file_url = None, file_modified = None, file_accessed = 5\<rparr>"

definition ex_image_store :: Model where
  "ex_image_store = snd (addImageNode ''img'' ex_image_file 7 None None empty_model)"

definition ex_image_removed :: Model where
  "ex_image_removed = apply_op (Remove ''img'') ex_image_store"

definition ex_dir :: "string \<Rightarrow> string \<Rightarrow> string option \<Rightarrow> int \<Rightarrow> Node" where
  "ex_dir i nm parent k = \<lparr>node_id = i, created = 0, modified = 0, node_tags = None, index = k,
     parentID = parent, body = DirectoryBody nm, depth = None\<rparr>"

definition ex_path_store :: Model where
  "ex_path_store = empty_model\<lparr>nodes :=
     [ex_dir ''idA'' ''A'' None 0, ex_dir ''idB'' ''B'' (Some ''idA'') 1,
      ex_dir ''idC'' ''C'' (Some ''idB'') 2, ex_dir ''idD'' ''D'' (Some ''lost'') 3]\<rparr>"

definition ex_tag :: Tag where
  "ex_tag = \<lparr>tag_id = ''t1'', tag_name = ''caf'' @ [CHR 0xE9]\<rparr>"

definition ex_tag_store :: Model where
  "ex_tag_store = snd (createTag ''t1'' (''caf'' @ [CHR 0xE9]) empty_model)"

definition ex_uuid :: "nat \<Rightarrow> string" where
  "ex_uuid k = ''u'' @ replicate k CHR ''x''"

definition ex_now :: "nat \<Rightarrow> Timestamp" where
  "ex_now k = 100 + int k"

definition ex_created :: Model where
  "ex_created =
     snd (snd (createDirectory accent_compare ex_uuid ex_now no_interleaving ''a/b/c'' 0 empty_model))"

section \<open>The directory tree (tree.ts)\<close>

text \<open>
  \<open>createTree\<close> returns nested arrays \<open>[node, children]\<close> whose first component is a node
  object of the store, not a copy. A node object is identified by its position in the
  array \<open>model.nodes.get()\<close>, which \<open>createTree\<close> never replaces: \<open>Nested r ts\<close> is the
  pair of the object at position \<open>r\<close> and the array \<open>ts\<close>.
\<close>

datatype NestedNodeArray = Nested nat "NestedNodeArray list"




text \<open>
  \<open>model.getNode\<close> and \<open>model.getChildNodes\<close> as \<open>createTree\<close> uses them: they hand out
  the objects of the array, here their positions.
\<close>

definition getNode_ref :: "string \<Rightarrow> Model \<Rightarrow> nat option" where
  "getNode_ref i m = findIndex (\<lambda>n. node_id n = i) (nodes m)"

definition getChildNodes_refs :: "string option \<Rightarrow> Model \<Rightarrow> nat list" where
  "getChildNodes_refs parent m = filter (\<lambda>j. parentID (nodes m ! j) = parent) [0..<length (nodes m)]"

text \<open>
  \<open>node.depth = depth\<close> on the object at position \<open>r\<close>. tree.ts is a module, so its code
  is strict: the assignment to a property of a frozen object throws a TypeError and
  writes nothing. \<open>with_depth\<close> is the store after a write that took place.
\<close>

definition with_depth :: "nat \<Rightarrow> int \<Rightarrow> Model \<Rightarrow> Model" where
  "with_depth r d m = m\<lparr>nodes := (nodes m)[r := (nodes m ! r)\<lparr>depth := Some d\<rparr>]\<rparr>"

definition set_depth :: "nat \<Rightarrow> int \<Rightarrow> Model \<Rightarrow> js_error + Model" where
  "set_depth r d m = (if nodes_frozen m then Inl TypeError else Inr (with_depth r d m))"

text \<open>
  \<open>depth + 1\<close>. A depth is a number; the model has the numbers that are integers. From
  \<open>-2\<^sup>5\<^sup>3\<close> up to, but not including, \<open>2\<^sup>5\<^sup>3\<close> the sum is exact. Beyond, the integers that
  are numbers are \<open>2\<close> or more apart and the sum is rounded to the nearest of them, to
  the one with the even significand when two are equally near.
\<close>

definition exact_int :: "int \<Rightarrow> bool" where
  "exact_int x = (- (2 ^ 53) \<le> x \<and> x < 2 ^ 53)"

definition js_add1 :: "int \<Rightarrow> int" where
  "js_add1 d =
     (if exact_int d then d + 1
      else if \<bar>d\<bar> < 2 ^ 54 then (if even (\<bar>d\<bar> div 2) then d else d + 2)
      else d)"

text \<open>
  The \<open>for\<close> loop of \<open>createTree\<close> over the array that \<open>getChildNodes\<close> returned; \<open>rec\<close> is
  the recursive call.
\<close>

fun createTree_children ::
  "(Model \<Rightarrow> string \<Rightarrow> (js_error + NestedNodeArray \<times> Model) option) \<Rightarrow> nat list \<Rightarrow> Model
     \<Rightarrow> NestedNodeArray list \<Rightarrow> (js_error + NestedNodeArray list \<times> Model) option" where
  "createTree_children rec [] m children = Some (Inr (children, m))"
| "createTree_children rec (child # rest) m children =
     (if node_type (nodes m ! child) = NodeType_Directory then
        (case rec m (node_id (nodes m ! child)) of
           None \<Rightarrow> None
         | Some (Inl e) \<Rightarrow> Some (Inl e)
         | Some (Inr (t, m')) \<Rightarrow> createTree_children rec rest m' (children @ [t]))
      else createTree_children rec rest m children)"

text \<open>
  \<open>createTree\<close> recurses without a bound when the parent references form a cycle. The
  first argument is fuel: the result \<open>None\<close> says that the fuel did not suffice.
  \<open>Some (Inl TypeError)\<close> is the exception of \<open>node.depth = depth\<close> when \<open>getNode\<close> found
  nothing, which is always so for the parent \<open>undefined\<close>, or when the node is frozen;
  \<open>Some (Inr (t, m'))\<close> is the returned structure and the store with the depths written.
  The last argument is the parameter \<open>depth\<close>, which is \<open>0\<close> when the caller leaves it
  out.
\<close>

fun createTree :: "nat \<Rightarrow> Model \<Rightarrow> string option \<Rightarrow> int \<Rightarrow> (js_error + NestedNodeArray \<times> Model) option" where
  "createTree 0 m parent d = None"
| "createTree (Suc fuel) m parent d =
     (case (case parent of None \<Rightarrow> None | Some i \<Rightarrow> getNode_ref i m) of
        None \<Rightarrow> Some (Inl TypeError)
      | Some node \<Rightarrow>
          (case set_depth node d m of
             Inl e \<Rightarrow> Some (Inl e)
           | Inr m1 \<Rightarrow>
               (case createTree_children (\<lambda>m' i. createTree fuel m' (Some i) (js_add1 d))
                       (getChildNodes_refs parent m1) m1 [] of
                  None \<Rightarrow> None
                | Some (Inl e) \<Rightarrow> Some (Inl e)
                | Some (Inr (children, m2)) \<Rightarrow> Some (Inr (Nested node children, m2)))))"


text \<open>A node, and a store, without the \<open>depth\<close> fields.\<close>

definition erase :: "Node \<Rightarrow> Node" where
  "erase n = n\<lparr>depth := None\<rparr>"














section \<open>Persistence: \<open>save()\<close> and the status (model.ts)\<close>

text \<open>
  \<open>save()\<close> hands the document \<open>{nodes, files, tags, version}\<close> to
  \<open>bridge.writeLibrary\<close>, which returns a promise. The host completes a write at a
  later turn of the event loop.
\<close>

definition LIBRARY_VERSION :: nat where
  "LIBRARY_VERSION = 3"

record Document =
  doc_nodes :: "Node list"
  doc_files :: "File list"
  doc_tags :: "Tag list"
  doc_version :: nat

text \<open>
  A status: the identifier is the number of the \<open>uuidv4()\<close> result, so that every call
  of \<open>setStatus\<close> makes a new one. The elapsed time in the message of the second status
  is a reading of \<open>performance.now()\<close> and is left out.
\<close>

record Status =
  status_id :: nat
  message :: string

text \<open>What an observer of the coordinator and of the host sees, in order.\<close>

datatype event =
    Ev_saving bool
  | Ev_status "Status option"
  | Ev_write_start nat Document
  | Ev_write_end nat
  | Ev_handle "nat option"

text \<open>
  The state of the coordinator. \<open>savePromise\<close> is \<open>Some w\<close> when the field holds the
  promise \<open>bridge.writeLibrary(...).then(...)\<close> of the write number \<open>w\<close>. \<open>awaiting\<close> lists,
  in the order of their registration, the calls of \<open>save()\<close> suspended at
  \<open>await this.savePromise\<close>, each by the promise it awaits. \<open>in_flight\<close> lists the writes
  that the host has received and not completed, \<open>timers\<close> the pending \<open>setTimeout\<close>
  callbacks by the status identifier they carry.
\<close>

record Coordinator =
  store :: Model
  savePromise :: "nat option"
  saving :: bool
  status :: "Status option"
  awaiting :: "nat list"
  in_flight :: "nat list"
  timers :: "nat list"
  writes_started :: nat
  uuids_drawn :: nat
  trace :: "event list"

definition init_coordinator :: "Model \<Rightarrow> Coordinator" where
  "init_coordinator m = \<lparr>store = m, savePromise = None, saving = False, status = None,
     awaiting = [], in_flight = [], timers = [], writes_started = 0, uuids_drawn = 0, trace = []\<rparr>"

definition emit :: "event \<Rightarrow> Coordinator \<Rightarrow> Coordinator" where
  "emit e c = c\<lparr>trace := trace c @ [e]\<rparr>"

definition set_saving :: "bool \<Rightarrow> Coordinator \<Rightarrow> Coordinator" where
  "set_saving b c = emit (Ev_saving b) (c\<lparr>saving := b\<rparr>)"

definition set_savePromise :: "nat option \<Rightarrow> Coordinator \<Rightarrow> Coordinator" where
  "set_savePromise p c = emit (Ev_handle p) (c\<lparr>savePromise := p\<rparr>)"

definition setStatus :: "string \<Rightarrow> Coordinator \<Rightarrow> nat \<times> Coordinator" where
  "setStatus msg c =
     (let i = uuids_drawn c; s = Some \<lparr>status_id = i, message = msg\<rparr>
      in (i, emit (Ev_status s) (c\<lparr>status := s, uuids_drawn := Suc i\<rparr>)))"

definition clearStatus :: "Coordinator \<Rightarrow> Coordinator" where
  "clearStatus c = emit (Ev_status None) (c\<lparr>status := None\<rparr>)"

definition document :: "Model \<Rightarrow> Document" where
  "document m = \<lparr>doc_nodes = nodes m, doc_files = files m, doc_tags = tags m,
     doc_version = LIBRARY_VERSION\<rparr>"

definition writeLibrary :: "Document \<Rightarrow> Coordinator \<Rightarrow> nat \<times> Coordinator" where
  "writeLibrary doc c =
     (let w = writes_started c
      in (w, emit (Ev_write_start w doc) (c\<lparr>in_flight := in_flight c @ [w], writes_started := Suc w\<rparr>)))"

text \<open>
  The body of \<open>save()\<close> after the guard. It has no \<open>await\<close>: from \<open>this.saving.set(true)\<close>
  to \<open>setTimeout\<close> it runs in one piece.
\<close>

definition save_proceed :: "Coordinator \<Rightarrow> Coordinator" where
  "save_proceed c =
     (let c1 = set_saving True c;
          c2 = snd (setStatus ''Saving...'' c1);
          (w, c3) = writeLibrary (document (store c2)) c2;
          c4 = set_savePromise (Some w) c3;
          (statusID, c5) = setStatus ''Saved!'' c4
      in c5\<lparr>timers := timers c5 @ [statusID]\<rparr>)"

text \<open>
  A call of \<open>save()\<close>: with a promise in the field the call is suspended at the \<open>await\<close>,
  otherwise the body runs at once.
\<close>

definition save_call :: "Coordinator \<Rightarrow> Coordinator" where
  "save_call c =
     (case savePromise c of
        Some p \<Rightarrow> c\<lparr>awaiting := awaiting c @ [p]\<rparr>
      | None \<Rightarrow> save_proceed c)"

text \<open>
  The host completes the write \<open>w\<close>. The \<open>then\<close> callback clears the field and the flag;
  this settles the promise, and the calls that await it resume one after the other, in
  the same turn of the event loop, each with the body of \<open>save()\<close>; none of them tests
  the field again.
\<close>

definition write_done :: "nat \<Rightarrow> Coordinator \<Rightarrow> Coordinator" where
  "write_done w c =
     (if w \<in> set (in_flight c) then
        (let c1 = emit (Ev_write_end w) (c\<lparr>in_flight := removeAll w (in_flight c)\<rparr>);
             c2 = set_savePromise None c1;
             c3 = set_saving False c2;
             resumed = filter (\<lambda>p. p = w) (awaiting c3);
             c4 = c3\<lparr>awaiting := filter (\<lambda>p. p \<noteq> w) (awaiting c3)\<rparr>
         in (save_proceed ^^ length resumed) c4)
      else c)"

text \<open>The callback of \<open>setTimeout\<close>, five seconds after the status \<open>statusID\<close> was set.\<close>

definition timer_fires :: "nat \<Rightarrow> Coordinator \<Rightarrow> Coordinator" where
  "timer_fires statusID c =
     (if statusID \<in> set (timers c) then
        (let c1 = c\<lparr>timers := remove1 statusID (timers c)\<rparr>
         in if map_option status_id (status c1) = Some statusID then clearStatus c1 else c1)
      else c)"

text \<open>
  What can happen to the coordinator, one turn of the event loop each: a call of
  \<open>save()\<close>, the completion of a write by the host, a timer.
\<close>

datatype input = CallSave | WriteDone nat | TimerFires nat

fun step :: "input \<Rightarrow> Coordinator \<Rightarrow> Coordinator" where
  "step CallSave c = save_call c"
| "step (WriteDone w) c = write_done w c"
| "step (TimerFires i) c = timer_fires i c"

definition run :: "input list \<Rightarrow> Coordinator \<Rightarrow> Coordinator" where
  "run ins c = fold step ins c"

text \<open>
  \<open>serialized pending es\<close>: in the events \<open>es\<close>, with the writes \<open>pending\<close> in flight at
  the beginning, no write starts while another is in flight.
\<close>

fun serialized :: "nat list \<Rightarrow> event list \<Rightarrow> bool" where
  "serialized pending [] = True"
| "serialized pending (Ev_write_start w doc # es) = (pending = [] \<and> serialized [w] es)"
| "serialized pending (Ev_write_end w # es) = serialized (removeAll w pending) es"
| "serialized pending (e # es) = serialized pending es"

fun write_starts :: "event list \<Rightarrow> nat list" where
  "write_starts [] = []"
| "write_starts (Ev_write_start w doc # es) = w # write_starts es"
| "write_starts (e # es) = write_starts es"

section \<open>Properties of the node store\<close>

lemma findIndex_Some:
  "findIndex p xs = Some i \<Longrightarrow> i < length xs \<and> p (xs ! i) \<and> (\<forall>j<i. \<not> p (xs ! j))"
proof (induction xs arbitrary: i)
  case Nil
  then show ?case by simp
next
  case (Cons x xs)
  show ?case
  proof (cases "p x")
    case True
    with Cons.prems show ?thesis by simp
  next
    case False
    with Cons.prems obtain k where k: "findIndex p xs = Some k" "i = Suc k"
      by (auto split: option.splits)
    from Cons.IH [OF k(1)] False k(2) show ?thesis
      by (auto simp: less_Suc_eq_0_disj)
  qed
qed

lemma findIndex_None: "findIndex p xs = None \<longleftrightarrow> (\<forall>x\<in>set xs. \<not> p x)"
  by (induction xs) (auto split: option.splits)

lemma mset_splice1:
  assumes i: "i < length xs"
  shows "mset (splice1 i xs) = mset xs - {#xs ! i#}"
proof -
  have "mset xs = mset (take i xs @ xs ! i # drop (Suc i) xs)"
    using i by (simp only: id_take_nth_drop [symmetric])
  also have "\<dots> = mset (splice1 i xs) + {#xs ! i#}"
    by (simp add: splice1_def)
  finally show ?thesis by simp
qed

lemma map_splice1: "map f (splice1 i xs) = splice1 i (map f xs)"
  by (simp add: splice1_def take_map drop_map)

lemma length_splice1: "i < length xs \<Longrightarrow> length (splice1 i xs) = length xs - 1"
  by (simp add: splice1_def)

lemma index_renumber: "index (renumber k n) = (if index n > k then index n - 1 else index n)"
  by (simp add: renumber_def)

lemma upt_split3: "j < N \<Longrightarrow> [0..<N] = [0..<j] @ j # [Suc j..<N]"
proof -
  assume a: "j < N"
  then obtain d where "N = j + d" using less_imp_add_positive by blast
  then have "[0..<N] = [0..<j] @ [j..<N]" using upt_add_eq_append [of 0 j d] by simp
  moreover have "[j..<N] = j # [Suc j..<N]" using a by (simp add: upt_conv_Cons)
  ultimately show ?thesis by simp
qed

lemma upt_join: "j \<le> M \<Longrightarrow> [0..<j] @ [j..<M] = [0..<M]"
proof -
  assume "j \<le> M"
  then obtain d where "M = j + d" using le_Suc_ex by blast
  then show ?thesis using upt_add_eq_append [of 0 j d] by simp
qed

lemma shift_lo: "map (\<lambda>x. if x > int j then x - 1 else x) (map int [0..<j]) = map int [0..<j]"
  by (induction j) auto

lemma shift_hi: "map (\<lambda>x. if x > int j then x - 1 else x) (map int [Suc j..<Suc M]) = map int [j..<M]"
proof -
  have "map (\<lambda>x. if x > int j then x - 1 else x) (map int (map Suc [j..<M])) = map int [j..<M]"
    by (induction M) auto
  then show ?thesis by (simp only: map_Suc_upt)
qed

lemma dense_shift_list:
  assumes "j < N"
  shows "map (\<lambda>x. if x > int j then x - 1 else x) (map int ([0..<j] @ [Suc j..<N])) = map int [0..<N - 1]"
proof -
  from assms obtain M where N: "N = Suc M" by (cases N) auto
  with assms have jM: "j \<le> M" by simp
  have "map (\<lambda>x. if x > int j then x - 1 else x) (map int ([0..<j] @ [Suc j..<Suc M]))
      = map int [0..<j] @ map int [j..<M]"
    unfolding map_append by (simp only: shift_lo shift_hi)
  also have "\<dots> = map int [0..<M]"
    unfolding map_append [symmetric] by (simp only: upt_join [OF jM])
  finally show ?thesis by (simp only: N diff_Suc_1)
qed


lemma dense_shift:
  assumes "j < N"
  shows "image_mset (\<lambda>x. if x > int j then x - 1 else x) (mset (map int [0..<N]) - {#int j#})
         = mset (map int [0..<N - 1])"
proof -
  have "mset (map int [0..<N]) = mset (map int ([0..<j] @ [Suc j..<N])) + {#int j#}"
    by (subst upt_split3 [OF assms]) (simp del: upt_Suc)
  then have "mset (map int [0..<N]) - {#int j#} = mset (map int ([0..<j] @ [Suc j..<N]))"
    by (simp only: add_diff_cancel_right')
  then show ?thesis
    by (simp only: mset_map [symmetric] dense_shift_list [OF assms])
qed

lemma index_dense_remove:
  assumes d: "index_dense ns" and i: "i < length ns"
  shows "index_dense (map (renumber (index (ns ! i))) (splice1 i ns))"
proof -
  let ?k = "index (ns ! i)"
  have eq: "mset (map index ns) = mset (map int [0..<length ns])"
    using d by (simp only: index_dense_def)
  have "?k \<in> set (map index ns)" using i by simp
  then have "?k \<in> set (map int [0..<length ns])" using mset_eq_setD [OF eq] by simp
  then obtain j where j: "j < length ns" "?k = int j" by auto
  have len: "length (map (renumber ?k) (splice1 i ns)) = length ns - 1"
    using i by (simp add: length_splice1)
  have "map index (map (renumber ?k) (splice1 i ns))
        = map (\<lambda>x. if x > ?k then x - 1 else x) (splice1 i (map index ns))"
    by (simp add: index_renumber flip: map_splice1)
  then have "mset (map index (map (renumber ?k) (splice1 i ns)))
      = image_mset (\<lambda>x. if x > ?k then x - 1 else x) (mset (splice1 i (map index ns)))"
    by (simp only: mset_map)
  also have "mset (splice1 i (map index ns)) = mset (map index ns) - {#?k#}"
    using i by (simp add: mset_splice1 del: mset_map)
  finally have "mset (map index (map (renumber ?k) (splice1 i ns)))
      = image_mset (\<lambda>x. if x > int j then x - 1 else x) (mset (map int [0..<length ns]) - {#int j#})"
    by (simp only: j(2) eq)
  also note dense_shift [OF j(1)]
  finally show ?thesis
    unfolding index_dense_def by (simp only: len)
qed

lemma index_dense_append:
  "index_dense ns \<Longrightarrow> index n = int (length ns) \<Longrightarrow> index_dense (ns @ [n])"
  by (simp add: index_dense_def del: mset_map)

lemma removeFile_nodes: "removeFile fid m = Inr m' \<Longrightarrow> nodes m' = nodes m"
  by (auto simp: removeFile_def save_def split: option.splits)

lemma cascade_image_nodes: "cascade_image b m = Inr m' \<Longrightarrow> nodes m' = nodes m"
  by (cases b) (auto dest: removeFile_nodes)

lemma cascade_anchor_nodes: "cascade_anchor b m = Inr m' \<Longrightarrow> nodes m' = nodes m"
  by (cases b) (auto dest: removeFile_nodes split: option.splits)

lemma removeNode_nodes:
  assumes "removeNode i m = Inr m'"
  shows "\<exists>k. findIndex (\<lambda>n. node_id n = i) (nodes m) = Some k \<and>
             nodes m' = map (renumber (index (nodes m ! k))) (splice1 k (nodes m))"
  using assms
  by (auto simp: removeNode_def Let_def save_def split: option.splits sum.splits
           dest!: cascade_image_nodes cascade_anchor_nodes)

lemma index_dense_apply_op: "index_dense (nodes m) \<Longrightarrow> index_dense (nodes (apply_op op m))"
proof (cases op)
  case (Remove i)
  assume d: "index_dense (nodes m)"
  show ?thesis
  proof (cases "removeNode i m")
    case (Inl e)
    with Remove d show ?thesis by simp
  next
    case (Inr m')
    from removeNode_nodes [OF Inr] obtain k where
      k: "findIndex (\<lambda>n. node_id n = i) (nodes m) = Some k"
         "nodes m' = map (renumber (index (nodes m ! k))) (splice1 k (nodes m))" by blast
    from findIndex_Some [OF k(1)] have "k < length (nodes m)" by simp
    from index_dense_remove [OF d this] k(2) Remove Inr show ?thesis by simp
  qed
qed (simp_all add: addTextNode_def addImageNode_def addDirectoryNode_def addAnchorNode_def
       Let_def save_def addNode_def addFile_def getNextIndex_def index_dense_append)

lemma index_dense_run_ops: "index_dense (nodes m) \<Longrightarrow> index_dense (nodes (run_ops ops m))"
  by (induction ops arbitrary: m) (simp_all add: index_dense_apply_op)


text \<open>
  Claim C3. Starting from the empty store, after every sequence of calls of the node
  constructors and of \<open>removeNode\<close> the multiset of the \<open>index\<close> values of the nodes in the
  store is that of \<open>0, \<dots>, N - 1\<close>, \<open>N\<close> the number of nodes. Every constructor gives
  its node the index \<open>N\<close>, and a successful \<open>removeNode\<close> takes the first node with the
  identifier out and lowers by one the index of every remaining node whose index was
  above that of the removed node.
\<close>

theorem index_density:
  "index_dense (nodes (run_ops ops empty_model)) \<and>
   mset (map index (nodes (run_ops ops empty_model)))
     = mset (map int [0..<length (nodes (run_ops ops empty_model))]) \<and>
   index (fst (addTextNode uid text ts parent tgs m)) = int (length (nodes m)) \<and>
   index (fst (addImageNode uid file ts parent tgs m)) = int (length (nodes m)) \<and>
   index (fst (addDirectoryNode uid nm ts parent tgs m)) = int (length (nodes m)) \<and>
   index (fst (addAnchorNode uid anchor ts parent tgs m)) = int (length (nodes m)) \<and>
   (removeNode i m = Inr m' \<longrightarrow>
      (\<exists>k. findIndex (\<lambda>n. node_id n = i) (nodes m) = Some k \<and>
           nodes m' = map (\<lambda>n. if index n > index (nodes m ! k) then n\<lparr>index := index n - 1\<rparr> else n)
                        (splice1 k (nodes m))))"
proof -
  have "index_dense (nodes empty_model)"
    by (simp add: index_dense_def empty_model_def)
  then have d: "index_dense (nodes (run_ops ops empty_model))"
    by (rule index_dense_run_ops)
  have r: "removeNode i m = Inr m' \<longrightarrow>
      (\<exists>k. findIndex (\<lambda>n. node_id n = i) (nodes m) = Some k \<and>
           nodes m' = map (\<lambda>n. if index n > index (nodes m ! k) then n\<lparr>index := index n - 1\<rparr> else n)
                        (splice1 k (nodes m)))"
    using removeNode_nodes [of i m m'] by (auto simp: renumber_def [abs_def])
  from d r show ?thesis
    by (simp add: index_dense_def addTextNode_def addImageNode_def addDirectoryNode_def
        addAnchorNode_def Let_def getNextIndex_def addFile_def del: mset_map)
qed


theorem index_density_witness:
  "removeNode ''n1'' ex_store = Inr (apply_op (Remove ''n1'') ex_store) \<and>
   map index (nodes ex_store) = [0, 1, 2] \<and>
   map index (nodes (apply_op (Remove ''n1'') ex_store)) = [0, 1] \<and>
   index_dense (nodes (run_ops ex_ops empty_model))"
proof -
  have h: "removeNode ''n1'' ex_store = Inr (apply_op (Remove ''n1'') ex_store)"
    by code_simp
  have c: "map index (nodes ex_store) = [0, 1, 2]"
    "map index (nodes (apply_op (Remove ''n1'') ex_store)) = [0, 1]"
    by code_simp+
  from h c show ?thesis
    using index_density [where ops = ex_ops and i = "''n1''" and m = ex_store
        and m' = "apply_op (Remove ''n1'') ex_store"]
    by simp
qed

lemma find_findIndex: "find p xs = map_option (\<lambda>k. xs ! k) (findIndex p xs)"
  by (induction xs) (auto split: option.splits)

lemma find_append_Some: "find p xs = Some x \<Longrightarrow> find p (xs @ ys) = Some x"
  by (induction xs) (auto split: if_splits)

lemma find_append_None: "find p xs = None \<Longrightarrow> find p (xs @ ys) = find p ys"
  by (induction xs) (auto split: if_splits)

text \<open>
  Claim C9. When the store has a node with the identifier, \<open>setParent\<close> succeeds and the
  new node list is the old one with the parent reference of the first such node replaced:
  its identifier, index, timestamps, body (content and type), tags and depth are as
  before, every other node is as before, and so are the files and the tags.
\<close>

theorem setParent_frame:
  assumes "getNode i m = Some n"
  shows "\<exists>k m'. setParent i p m = Inr m' \<and>
           findIndex (\<lambda>x. node_id x = i) (nodes m) = Some k \<and> k < length (nodes m) \<and>
           nodes m ! k = n \<and>
           nodes m' = (nodes m)[k := n\<lparr>parentID := Some p\<rparr>] \<and>
           length (nodes m') = length (nodes m) \<and>
           (\<forall>j<length (nodes m). j \<noteq> k \<longrightarrow> nodes m' ! j = nodes m ! j) \<and>
           parentID (nodes m' ! k) = Some p \<and>
           node_id (nodes m' ! k) = node_id n \<and>
           index (nodes m' ! k) = index n \<and>
           created (nodes m' ! k) = created n \<and>
           modified (nodes m' ! k) = modified n \<and>
           body (nodes m' ! k) = body n \<and>
           node_type (nodes m' ! k) = node_type n \<and>
           node_tags (nodes m' ! k) = node_tags n \<and>
           depth (nodes m' ! k) = depth n \<and>
           files m' = files m \<and> tags m' = tags m"
proof -
  from assms obtain k where k: "findIndex (\<lambda>x. node_id x = i) (nodes m) = Some k" "nodes m ! k = n"
    by (auto simp: getNode_def find_findIndex)
  from findIndex_Some [OF k(1)] have lt: "k < length (nodes m)" by simp
  let ?m' = "save (m\<lparr>nodes := (nodes m)[k := n\<lparr>parentID := Some p\<rparr>], nodes_frozen := True\<rparr>)"
  have s: "setParent i p m = Inr ?m'"
    using k by (simp add: setParent_def)
  have n: "nodes ?m' = (nodes m)[k := n\<lparr>parentID := Some p\<rparr>]" by (simp add: save_def)
  have f: "files ?m' = files m" "tags ?m' = tags m" by (simp_all add: save_def)
  show ?thesis
    apply (rule exI [of _ k])
    apply (rule exI [of _ ?m'])
    using s k lt n f by (simp add: node_type_def)
qed

theorem setParent_frame_witness:
  "getNode ''n3'' ex_store = Some (nodes ex_store ! 2) \<and>
   (\<exists>m'. setParent ''n3'' ''n9'' ex_store = Inr m' \<and>
      map parentID (nodes m') = [None, None, Some ''n9''] \<and>
      map parentID (nodes ex_store) = [None, None, Some ''n2''] \<and>
      map index (nodes m') = map index (nodes ex_store))"
proof -
  have h: "getNode ''n3'' ex_store = Some (nodes ex_store ! 2)"
    by code_simp
  have c: "setParent ''n3'' ''n9'' ex_store
      = Inr (save (ex_store\<lparr>nodes := (nodes ex_store)[2 := (nodes ex_store ! 2)\<lparr>parentID := Some ''n9''\<rparr>], nodes_frozen := True\<rparr>))"
    "map parentID (nodes (save (ex_store\<lparr>nodes := (nodes ex_store)[2 := (nodes ex_store ! 2)\<lparr>parentID := Some ''n9''\<rparr>], nodes_frozen := True\<rparr>)))
       = [None, None, Some ''n9'']"
    "map parentID (nodes ex_store) = [None, None, Some ''n2'']"
    "map index (nodes (save (ex_store\<lparr>nodes := (nodes ex_store)[2 := (nodes ex_store ! 2)\<lparr>parentID := Some ''n9''\<rparr>], nodes_frozen := True\<rparr>)))
       = map index (nodes ex_store)"
    by code_simp+
  from setParent_frame [OF h, of "''n9''"] c h show ?thesis by auto
qed

text \<open>
  Claim C5, as stated, fails: after the removal of an image node its file record is gone,
  and a call of \<open>removeFile\<close> for that file then throws a TypeError.
\<close>

theorem removeFile_after_removeNode_counterexample:
  "removeNode ''img'' ex_image_store = Inr ex_image_removed \<and>
   files ex_image_store = [ex_image_file] \<and>
   files ex_image_removed = [] \<and>
   removeFile ''f1'' ex_image_removed = Inl TypeError"
  by code_simp

lemma removeFile_found:
  assumes "findIndex (\<lambda>f. file_id f = fid) (files m) = Some j"
  shows "removeFile fid m
     = Inr (save (m\<lparr>removed_blobs := removed_blobs m @ [fid], files := splice1 j (files m)\<rparr>))"
  using assms findIndex_Some [OF assms] by (simp add: removeFile_def)

lemma removeFile_missing:
  "findIndex (\<lambda>f. file_id f = fid) (files m) = None \<Longrightarrow> removeFile fid m = Inl TypeError"
  by (simp add: removeFile_def)

lemma length_splice1': "i < length xs \<Longrightarrow> Suc (length (splice1 i xs)) = length xs"
  by (simp add: splice1_def)

lemma distinct_splice1_notin:
  assumes "distinct (map f xs)" "j < length xs"
  shows "f (xs ! j) \<notin> f ` set (splice1 j xs)"
proof -
  have "map f xs = take j (map f xs) @ f (xs ! j) # drop (Suc j) (map f xs)"
    using assms(2) id_take_nth_drop [of j "map f xs"] by simp
  with assms(1) have "distinct (take j (map f xs) @ f (xs ! j) # drop (Suc j) (map f xs))"
    by simp
  then have "f (xs ! j) \<notin> set (take j (map f xs)) \<union> set (drop (Suc j) (map f xs))"
    by auto
  then show ?thesis
    by (simp add: splice1_def take_map drop_map image_Un)
qed

text \<open>
  Claim C5, amended. Removing a node that is an image with the file \<open>fid\<close>, or an anchor
  whose \<open>contentImageFileID\<close> is \<open>fid\<close>, while the store has a file record \<open>fid\<close>,
  succeeds, takes exactly one record (the first with that identifier) out of the files
  and asks the host once to delete the blob. A call of \<open>removeFile\<close> for an identifier
  that no file record carries throws a TypeError; with distinct file identifiers that is
  the case for \<open>fid\<close> after the node was removed.
\<close>

theorem cascade_removal:
  "(findIndex (\<lambda>n. node_id n = i) (nodes m) = Some k \<and>
    (body (nodes m ! k) = ImageBody fid d \<or>
     (\<exists>a. body (nodes m ! k) = AnchorBody a \<and> contentImageFileID a = Some fid)) \<and>
    findIndex (\<lambda>f. file_id f = fid) (files m) = Some j
    \<longrightarrow> (\<exists>m'. removeNode i m = Inr m' \<and>
           files m' = splice1 j (files m) \<and>
           Suc (length (files m')) = length (files m) \<and>
           removed_blobs m' = removed_blobs m @ [fid] \<and>
           (distinct (map file_id (files m)) \<longrightarrow>
              getFile fid m' = None \<and> removeFile fid m' = Inl TypeError))) \<and>
   (findIndex (\<lambda>f. file_id f = fid) (files m) = None \<longrightarrow> removeFile fid m = Inl TypeError)"
proof (intro conjI impI)
  assume "findIndex (\<lambda>f. file_id f = fid) (files m) = None"
  then show "removeFile fid m = Inl TypeError" by (rule removeFile_missing)
next
  assume a: "findIndex (\<lambda>n. node_id n = i) (nodes m) = Some k \<and>
    (body (nodes m ! k) = ImageBody fid d \<or>
     (\<exists>a. body (nodes m ! k) = AnchorBody a \<and> contentImageFileID a = Some fid)) \<and>
    findIndex (\<lambda>f. file_id f = fid) (files m) = Some j"
  then have k: "findIndex (\<lambda>n. node_id n = i) (nodes m) = Some k"
    and j: "findIndex (\<lambda>f. file_id f = fid) (files m) = Some j"
    and b: "body (nodes m ! k) = ImageBody fid d \<or>
     (\<exists>a. body (nodes m ! k) = AnchorBody a \<and> contentImageFileID a = Some fid)"
    by simp_all
  let ?m1 = "save (m\<lparr>removed_blobs := removed_blobs m @ [fid], files := splice1 j (files m)\<rparr>)"
  let ?m' = "save (?m1\<lparr>nodes := map (renumber (index (nodes m ! k))) (splice1 k (nodes m)),
      nodes_frozen := True\<rparr>)"
  from findIndex_Some [OF j] have jl: "j < length (files m)" and jid: "file_id (files m ! j) = fid"
    by simp_all
  have r: "removeNode i m = Inr ?m'"
    using b
  proof
    assume "body (nodes m ! k) = ImageBody fid d"
    then show ?thesis using k removeFile_found [OF j]
      by (simp add: removeNode_def Let_def save_def)
  next
    assume "\<exists>a. body (nodes m ! k) = AnchorBody a \<and> contentImageFileID a = Some fid"
    then show ?thesis using k removeFile_found [OF j]
      by (auto simp: removeNode_def Let_def save_def)
  qed
  have f: "files ?m' = splice1 j (files m)" by (simp add: save_def)
  have rb: "removed_blobs ?m' = removed_blobs m @ [fid]" by (simp add: save_def)
  have gone: "getFile fid ?m' = None \<and> removeFile fid ?m' = Inl TypeError"
    if dist: "distinct (map file_id (files m))"
  proof -
    from distinct_splice1_notin [OF dist jl] jid
    have "fid \<notin> file_id ` set (splice1 j (files m))" by simp
    then have "findIndex (\<lambda>f. file_id f = fid) (files ?m') = None"
      unfolding f findIndex_None by auto
    then show ?thesis
      by (simp add: removeFile_missing getFile_def find_findIndex)
  qed
  show "\<exists>m'. removeNode i m = Inr m' \<and>
           files m' = splice1 j (files m) \<and>
           Suc (length (files m')) = length (files m) \<and>
           removed_blobs m' = removed_blobs m @ [fid] \<and>
           (distinct (map file_id (files m)) \<longrightarrow>
              getFile fid m' = None \<and> removeFile fid m' = Inl TypeError)"
    apply (rule exI [of _ ?m'])
    using r f rb gone jl by (simp add: length_splice1' del: )
qed

theorem cascade_removal_witness:
  "findIndex (\<lambda>n. node_id n = ''img'') (nodes ex_image_store) = Some 0 \<and>
   body (nodes ex_image_store ! 0) = ImageBody ''f1'' None \<and>
   findIndex (\<lambda>f. file_id f = ''f1'') (files ex_image_store) = Some 0 \<and>
   distinct (map file_id (files ex_image_store)) \<and>
   findIndex (\<lambda>f. file_id f = ''f1'') (files ex_image_removed) = None \<and>
   removed_blobs ex_image_removed = [''f1''] \<and>
   removeFile ''f1'' ex_image_removed = Inl TypeError"
proof -
  have h: "findIndex (\<lambda>n. node_id n = ''img'') (nodes ex_image_store) = Some 0"
    "body (nodes ex_image_store ! 0) = ImageBody ''f1'' None"
    "findIndex (\<lambda>f. file_id f = ''f1'') (files ex_image_store) = Some 0"
    "distinct (map file_id (files ex_image_store))"
    "findIndex (\<lambda>f. file_id f = ''f1'') (files ex_image_removed) = None"
    "removed_blobs ex_image_removed = [''f1'']"
    by code_simp+
  from h show ?thesis
    using cascade_removal [where i = "''img''" and m = ex_image_store and k = 0
        and fid = "''f1''" and d = None and j = 0]
      cascade_removal [where m = ex_image_removed and fid = "''f1''"]
    by simp
qed

lemma is_chain_snoc:
  "is_chain ns up (ds @ [d]) \<longleftrightarrow>
     is_chain ns up ds \<and> find (\<lambda>n. node_id n = node_id d) ns = Some d \<and>
     parentID d = (if ds = [] then up else Some (node_id (last ds)))"
  by (induction ds arbitrary: up) auto

lemma getPath_loop_chain:
  "is_chain ns up ds \<Longrightarrow> ds \<noteq> [] \<Longrightarrow>
     getPath_loop ns acc (Some (node_id (last ds))) = getPath_loop ns (map name ds @ acc) up"
proof (induction ds arbitrary: acc rule: rev_induct)
  case Nil
  then show ?case by simp
next
  case (snoc d ds)
  from snoc.prems(1) have c: "is_chain ns up ds"
    and f: "find (\<lambda>n. node_id n = node_id d) ns = Some d"
    and p: "parentID d = (if ds = [] then up else Some (node_id (last ds)))"
    by (simp_all add: is_chain_snoc)
  have step: "getPath_loop ns acc (Some (node_id d)) = getPath_loop ns (name d # acc) (parentID d)"
    by (subst getPath_loop.simps) (simp add: f)
  show ?case
  proof (cases "ds = []")
    case True
    with step p show ?thesis by simp
  next
    case False
    with snoc.IH [OF c False, of "name d # acc"] step p show ?thesis by simp
  qed
qed

text \<open>
  Claim C6. \<open>getPath\<close> of the reserved identifier is \<open>Trash\<close> whatever the store holds.
  For a chain of nodes from a root down to the given directory, \<open>getPath\<close> returns
  \<open>/\<close> followed by their names joined with \<open>/\<close>. When the chain ends in a parent
  reference that no node carries, or the given identifier itself is not found, the
  result is the thrown \<open>Error\<close>. In each of these cases the loop ends.
\<close>

theorem getPath_chain:
  "getPath ReservedID_Trash m = Some (Inr ''Trash'') \<and>
   (is_chain (nodes m) None ds \<and> ds \<noteq> [] \<and> node_id (last ds) \<noteq> ReservedID_Trash \<longrightarrow>
      getPath (node_id (last ds)) m = Some (Inr (''/'' @ js_join ''/'' (map name ds)))) \<and>
   (is_chain (nodes m) (Some p) ds \<and> ds \<noteq> [] \<and> node_id (last ds) \<noteq> ReservedID_Trash \<and>
    find (\<lambda>n. node_id n = p) (nodes m) = None \<longrightarrow>
      getPath (node_id (last ds)) m = Some (Inl Error)) \<and>
   (directoryID \<noteq> ReservedID_Trash \<and> find (\<lambda>n. node_id n = directoryID) (nodes m) = None \<longrightarrow>
      getPath directoryID m = Some (Inl Error))"
proof (intro conjI impI)
  show "getPath ReservedID_Trash m = Some (Inr ''Trash'')"
    by (simp add: getPath_def)
next
  assume a: "is_chain (nodes m) None ds \<and> ds \<noteq> [] \<and> node_id (last ds) \<noteq> ReservedID_Trash"
  then have "getPath_loop (nodes m) [] (Some (node_id (last ds)))
      = getPath_loop (nodes m) (map name ds @ []) None"
    by (intro getPath_loop_chain) simp_all
  also have "\<dots> = Some (Inr (map name ds))"
    by (subst getPath_loop.simps) simp
  finally show "getPath (node_id (last ds)) m = Some (Inr (''/'' @ js_join ''/'' (map name ds)))"
    using a by (simp add: getPath_def)
next
  assume a: "is_chain (nodes m) (Some p) ds \<and> ds \<noteq> [] \<and> node_id (last ds) \<noteq> ReservedID_Trash \<and>
    find (\<lambda>n. node_id n = p) (nodes m) = None"
  then have "getPath_loop (nodes m) [] (Some (node_id (last ds)))
      = getPath_loop (nodes m) (map name ds @ []) (Some p)"
    by (intro getPath_loop_chain) simp_all
  also have "\<dots> = Some (Inl Error)"
    using a by (subst getPath_loop.simps) simp
  finally show "getPath (node_id (last ds)) m = Some (Inl Error)"
    using a by (simp add: getPath_def)
next
  assume a: "directoryID \<noteq> ReservedID_Trash \<and> find (\<lambda>n. node_id n = directoryID) (nodes m) = None"
  then have "getPath_loop (nodes m) [] (Some directoryID) = Some (Inl Error)"
    by (subst getPath_loop.simps) simp
  then show "getPath directoryID m = Some (Inl Error)"
    using a by (simp add: getPath_def)
qed

theorem getPath_chain_witness:
  "is_chain (nodes ex_path_store) None
     [ex_dir ''idA'' ''A'' None 0, ex_dir ''idB'' ''B'' (Some ''idA'') 1, ex_dir ''idC'' ''C'' (Some ''idB'') 2] \<and>
   getPath ''idC'' ex_path_store = Some (Inr ''/A/B/C'') \<and>
   is_chain (nodes ex_path_store) (Some ''lost'') [ex_dir ''idD'' ''D'' (Some ''lost'') 3] \<and>
   find (\<lambda>n. node_id n = ''lost'') (nodes ex_path_store) = None \<and>
   getPath ''idD'' ex_path_store = Some (Inl Error) \<and>
   getPath ''lost'' ex_path_store = Some (Inl Error) \<and>
   getPath ''trash'' ex_path_store = Some (Inr ''Trash'')"
proof -
  let ?abc = "[ex_dir ''idA'' ''A'' None 0, ex_dir ''idB'' ''B'' (Some ''idA'') 1, ex_dir ''idC'' ''C'' (Some ''idB'') 2]"
  have h1: "is_chain (nodes ex_path_store) None ?abc" by code_simp
  have h2: "is_chain (nodes ex_path_store) (Some ''lost'') [ex_dir ''idD'' ''D'' (Some ''lost'') 3]"
    by code_simp
  have h3: "find (\<lambda>n. node_id n = ''lost'') (nodes ex_path_store) = None" by code_simp
  have e: "node_id (last ?abc) = ''idC''" "''idC'' \<noteq> ReservedID_Trash"
    "''/'' @ js_join ''/'' (map name ?abc) = ''/A/B/C''"
    "node_id (ex_dir ''idD'' ''D'' (Some ''lost'') 3) = ''idD''"
    "''idD'' \<noteq> ReservedID_Trash" "''lost'' \<noteq> ReservedID_Trash" "ReservedID_Trash = ''trash''"
    by code_simp+
  have g1: "getPath ''idC'' ex_path_store = Some (Inr ''/A/B/C'')"
    using getPath_chain [where m = ex_path_store and ds = ?abc] h1 e by simp
  have g2: "getPath ''idD'' ex_path_store = Some (Inl Error)"
    using getPath_chain [where m = ex_path_store and ds = "[ex_dir ''idD'' ''D'' (Some ''lost'') 3]"
        and p = "''lost''"] h2 h3 e by simp
  have g3: "getPath ''lost'' ex_path_store = Some (Inl Error)"
    using getPath_chain [where m = ex_path_store and directoryID = "''lost''"] h3 e by simp
  have g4: "getPath ''trash'' ex_path_store = Some (Inr ''Trash'')"
    using getPath_chain [where m = ex_path_store] e by simp
  from h1 h2 h3 g1 g2 g3 g4 show ?thesis by simp
qed

section \<open>Properties of the lookup of tags\<close>

lemma of_char_to_lower:
  "of_char (to_lower c) = (if is_upper c then (of_char c :: nat) + 32 else of_char c)"
proof (cases "is_upper c")
  case True
  then have "(of_char c :: nat) + 32 < 256"
    by (auto simp: is_upper_def Let_def)
  then have "of_char (char_of ((of_char c :: nat) + 32)) = (of_char c :: nat) + 32"
    by (simp add: of_char_of)
  with True show ?thesis by (simp add: to_lower_def)
next
  case False
  then show ?thesis by (simp add: to_lower_def)
qed

lemma plain_char_key:
  assumes "plain_char c"
  shows "\<not> ignorable c" and "accent_key c = to_lower c"
proof -
  let ?n = "of_char c :: nat"
  from assms have p: "?n = 32 \<or> (48 \<le> ?n \<and> ?n \<le> 57) \<or> (65 \<le> ?n \<and> ?n \<le> 90) \<or>
      (97 \<le> ?n \<and> ?n \<le> 122) \<or> 192 \<le> ?n"
    unfolding plain_char_def of_char_to_lower Let_def is_upper_def
    by (auto split: if_splits)
  from assms have q: "?n \<noteq> 160 \<and> ?n \<noteq> 170 \<and> ?n \<noteq> 186 \<and> ?n \<noteq> 185 \<and> ?n \<noteq> 178 \<and> ?n \<noteq> 179 \<and> ?n \<noteq> 173"
    unfolding plain_char_def of_char_to_lower Let_def is_upper_def
    by (auto split: if_splits)
  from p show "\<not> ignorable c" by (auto simp: ignorable_def Let_def)
  from q show "accent_key c = to_lower c" by (simp add: accent_key_def Let_def)
qed

lemma plain_filter_map:
  "plain a \<Longrightarrow> map accent_key (filter (\<lambda>c. \<not> ignorable c) a) = map to_lower a"
  by (induction a) (simp_all add: plain_def plain_char_key)

lemma accent_sensitivity_accent_compare: "accent_sensitivity accent_compare"
  by (simp add: accent_sensitivity_def accent_compare_def plain_filter_map)

lemma accent_compare_refl: "accent_compare s s"
  by (simp add: accent_compare_def)

lemma find_first:
  "find p xs = Some x \<longleftrightarrow> (\<exists>k<length xs. xs ! k = x \<and> p x \<and> (\<forall>j<k. \<not> p (xs ! j)))"
  unfolding find_Some_iff by auto

text \<open>
  Claim C2, as stated, fails: with a tag named \<open>caf\<eacute>\<close> in the store, \<open>findTag\<close> of
  \<open>Cafe\<close> finds nothing, since the comparison distinguishes accents.
\<close>

theorem findTag_accent_counterexample:
  "tags ex_tag_store = [\<lparr>tag_id = ''t1'', tag_name = ''caf'' @ [CHR 0xE9]\<rparr>] \<and>
   findTag accent_compare ''Cafe'' ex_tag_store = None"
  by code_simp

lemma ex_plain:
  "plain (''caf'' @ [CHR 0xE9])" "plain (''CAF'' @ [CHR 0xC9])" "plain ''Cafe''" "plain ''cafe ''"
  "plain (''caf'' @ [CHR 0xE9] @ '' '')"
  "map to_lower (''caf'' @ [CHR 0xE9]) = map to_lower (''CAF'' @ [CHR 0xC9])"
  "map to_lower (''caf'' @ [CHR 0xE9]) \<noteq> map to_lower ''Cafe''"
  "map to_lower (''caf'' @ [CHR 0xE9]) \<noteq> map to_lower ''cafe ''"
  "map to_lower (''caf'' @ [CHR 0xE9]) \<noteq> map to_lower (''caf'' @ [CHR 0xE9] @ '' '')"
  "tags ex_tag_store = [ex_tag]" "tag_name ex_tag = ''caf'' @ [CHR 0xE9]"
  by code_simp+

text \<open>
  Claim C2, amended. \<open>findTag\<close> returns the first tag of the store whose name the
  comparison of the platform, at the sensitivity \<open>accent\<close>, takes as equal to the given
  name, or nothing when there is no such tag. When the comparison has the accent
  sensitivity of ECMA-402 and the names are strings of plain characters, this is the
  first tag whose name equals the given one up to the case of the letters, accents being
  significant. With a tag named \<open>caf\<eacute>\<close> in the store, \<open>CAF\<Eacute>\<close> and \<open>caf\<eacute>\<close> find it;
  \<open>Cafe\<close>, \<open>cafe\<close> with a trailing blank and \<open>caf\<eacute>\<close> with a trailing blank find nothing.
\<close>

theorem findTag_first_match:
  "(findTag cmp nm m = Some t \<longleftrightarrow>
      (\<exists>k<length (tags m). tags m ! k = t \<and> cmp (tag_name t) nm \<and>
         (\<forall>j<k. \<not> cmp (tag_name (tags m ! j)) nm))) \<and>
   (findTag cmp nm m = None \<longleftrightarrow> (\<forall>t\<in>set (tags m). \<not> cmp (tag_name t) nm)) \<and>
   (accent_sensitivity cmp \<and> plain nm \<and> list_all (\<lambda>t. plain (tag_name t)) (tags m) \<longrightarrow>
      (findTag cmp nm m = Some t \<longleftrightarrow>
         (\<exists>k<length (tags m). tags m ! k = t \<and>
            map to_lower (tag_name t) = map to_lower nm \<and>
            (\<forall>j<k. map to_lower (tag_name (tags m ! j)) \<noteq> map to_lower nm)))) \<and>
   (accent_sensitivity cmp \<longrightarrow>
      findTag cmp (''CAF'' @ [CHR 0xC9]) ex_tag_store = Some ex_tag \<and>
      findTag cmp (''caf'' @ [CHR 0xE9]) ex_tag_store = Some ex_tag \<and>
      findTag cmp ''Cafe'' ex_tag_store = None \<and>
      findTag cmp ''cafe '' ex_tag_store = None \<and>
      findTag cmp (''caf'' @ [CHR 0xE9] @ '' '') ex_tag_store = None)"
proof -
  have a: "findTag cmp nm m = Some t \<longleftrightarrow>
      (\<exists>k<length (tags m). tags m ! k = t \<and> cmp (tag_name t) nm \<and>
         (\<forall>j<k. \<not> cmp (tag_name (tags m ! j)) nm))"
    by (simp add: findTag_def find_first)
  have b: "findTag cmp nm m = None \<longleftrightarrow> (\<forall>t\<in>set (tags m). \<not> cmp (tag_name t) nm)"
    by (auto simp: findTag_def find_None_iff)
  have c: "findTag cmp nm m = Some t \<longleftrightarrow>
         (\<exists>k<length (tags m). tags m ! k = t \<and>
            map to_lower (tag_name t) = map to_lower nm \<and>
            (\<forall>j<k. map to_lower (tag_name (tags m ! j)) \<noteq> map to_lower nm))"
    if s: "accent_sensitivity cmp" and p: "plain nm" "list_all (\<lambda>t. plain (tag_name t)) (tags m)"
  proof -
    have e: "cmp (tag_name (tags m ! j)) nm = (map to_lower (tag_name (tags m ! j)) = map to_lower nm)"
      if "j < length (tags m)" for j
      using s p that by (simp add: accent_sensitivity_def list_all_length)
    show ?thesis unfolding a
    proof (rule iffI)
      assume "\<exists>k<length (tags m). tags m ! k = t \<and> cmp (tag_name t) nm \<and>
         (\<forall>j<k. \<not> cmp (tag_name (tags m ! j)) nm)"
      then obtain k where k: "k < length (tags m)" "tags m ! k = t" "cmp (tag_name t) nm"
        "\<forall>j<k. \<not> cmp (tag_name (tags m ! j)) nm" by blast
      from k e [of k] have "map to_lower (tag_name t) = map to_lower nm" by simp
      moreover from k e have "\<forall>j<k. map to_lower (tag_name (tags m ! j)) \<noteq> map to_lower nm"
        by simp
      ultimately show "\<exists>k<length (tags m). tags m ! k = t \<and>
            map to_lower (tag_name t) = map to_lower nm \<and>
            (\<forall>j<k. map to_lower (tag_name (tags m ! j)) \<noteq> map to_lower nm)"
        using k by blast
    next
      assume "\<exists>k<length (tags m). tags m ! k = t \<and>
            map to_lower (tag_name t) = map to_lower nm \<and>
            (\<forall>j<k. map to_lower (tag_name (tags m ! j)) \<noteq> map to_lower nm)"
      then obtain k where k: "k < length (tags m)" "tags m ! k = t"
        "map to_lower (tag_name t) = map to_lower nm"
        "\<forall>j<k. map to_lower (tag_name (tags m ! j)) \<noteq> map to_lower nm" by blast
      from k e [of k] have "cmp (tag_name t) nm" by simp
      moreover from k e have "\<forall>j<k. \<not> cmp (tag_name (tags m ! j)) nm" by simp
      ultimately show "\<exists>k<length (tags m). tags m ! k = t \<and> cmp (tag_name t) nm \<and>
         (\<forall>j<k. \<not> cmp (tag_name (tags m ! j)) nm)"
        using k by blast
    qed
  qed
  have d: "findTag cmp (''CAF'' @ [CHR 0xC9]) ex_tag_store = Some ex_tag \<and>
      findTag cmp (''caf'' @ [CHR 0xE9]) ex_tag_store = Some ex_tag \<and>
      findTag cmp ''Cafe'' ex_tag_store = None \<and>
      findTag cmp ''cafe '' ex_tag_store = None \<and>
      findTag cmp (''caf'' @ [CHR 0xE9] @ '' '') ex_tag_store = None"
    if s: "accent_sensitivity cmp"
  proof -
    from s ex_plain have
      "cmp (''caf'' @ [CHR 0xE9]) (''CAF'' @ [CHR 0xC9])"
      "cmp (''caf'' @ [CHR 0xE9]) (''caf'' @ [CHR 0xE9])"
      "\<not> cmp (''caf'' @ [CHR 0xE9]) ''Cafe''"
      "\<not> cmp (''caf'' @ [CHR 0xE9]) ''cafe ''"
      "\<not> cmp (''caf'' @ [CHR 0xE9]) (''caf'' @ [CHR 0xE9] @ '' '')"
      unfolding accent_sensitivity_def by blast+
    with ex_plain(10,11) show ?thesis by (simp add: findTag_def)
  qed
  from a b c d show ?thesis by blast
qed

theorem findTag_first_match_witness:
  "accent_sensitivity accent_compare \<and> plain ''Cafe'' \<and>
   list_all (\<lambda>t. plain (tag_name t)) (tags ex_tag_store) \<and>
   findTag accent_compare (''CAF'' @ [CHR 0xC9]) ex_tag_store = Some ex_tag \<and>
   findTag accent_compare ''Cafe'' ex_tag_store = None \<and>
   findTag accent_compare ''cafe '' ex_tag_store = None \<and>
   map to_lower (tag_name ex_tag) \<noteq> map to_lower ''Cafe''"
proof -
  have h: "plain ''Cafe''" "list_all (\<lambda>t. plain (tag_name t)) (tags ex_tag_store)"
    "map to_lower (tag_name ex_tag) \<noteq> map to_lower ''Cafe''"
    by code_simp+
  from findTag_first_match [where cmp = accent_compare and nm = "''Cafe''" and m = ex_tag_store
      and t = ex_tag] accent_sensitivity_accent_compare h
  show ?thesis by blast
qed

section \<open>Properties of the creation of directories\<close>

lemma addDirectoryNode_eq:
  "addDirectoryNode uid nm ts parent None m = (node, m') \<Longrightarrow>
     node = \<lparr>node_id = uid, created = ts, modified = ts, node_tags = None,
       index = int (length (nodes m)), parentID = parent, body = DirectoryBody nm, depth = None\<rparr> \<and>
     m' = m\<lparr>nodes := nodes m @ [node], nodes_frozen := True\<rparr>"
  by (auto simp: addDirectoryNode_def Let_def addNode_def getNextIndex_def)

lemma new_directory_matches:
  assumes "cmp nm nm"
  shows "(\<lambda>n. node_type n = NodeType_Directory \<and> parentID n = parent \<and> name_matches cmp n nm)
     \<lparr>node_id = uid, created = ts, modified = ts, node_tags = None,
       index = i, parentID = parent, body = DirectoryBody nm, depth = None\<rparr>"
  using assms by (simp add: node_type_def name_matches_def name_def)

lemma loop_extends:
  "createDirectory_loop cmp uuid now no_interleaving dirs parent k m = (r, k', m') \<Longrightarrow>
     \<exists>new. nodes m' = nodes m @ new \<and> (\<forall>n\<in>set new. node_type n = NodeType_Directory) \<and>
           k' = k + length new \<and> length new \<le> length dirs \<and>
           files m' = files m \<and> tags m' = tags m \<and>
           removed_blobs m' = removed_blobs m \<and> save_calls m' = save_calls m"
proof (induction dirs arbitrary: parent k m)
  case Nil
  then show ?case by simp
next
  case (Cons dir dirs)
  show ?case
  proof (cases "findDirectory cmp parent dir m")
    case (Some found)
    with Cons.prems have
      "createDirectory_loop cmp uuid now no_interleaving dirs (Some (node_id found)) k m = (r, k', m')"
      by simp
    from Cons.IH [OF this] show ?thesis by auto
  next
    case None
    obtain node m1 where a: "addDirectoryNode (uuid k) dir (now k) parent None m = (node, m1)"
      by (cases "addDirectoryNode (uuid k) dir (now k) parent None m") auto
    from None a have "createDirectory_loop cmp uuid now no_interleaving (dir # dirs) parent k m
        = createDirectory_loop cmp uuid now no_interleaving dirs (Some (node_id node)) (Suc k) m1"
      by (simp add: no_interleaving_def)
    with Cons.prems(1) have
      "createDirectory_loop cmp uuid now no_interleaving dirs (Some (node_id node)) (Suc k) m1 = (r, k', m')"
      by simp
    from Cons.IH [OF this] obtain new where
      new: "nodes m' = nodes m1 @ new" "\<forall>n\<in>set new. node_type n = NodeType_Directory"
        "k' = Suc k + length new" "length new \<le> length dirs"
        "files m' = files m1" "tags m' = tags m1"
        "removed_blobs m' = removed_blobs m1" "save_calls m' = save_calls m1"
      by blast
    from addDirectoryNode_eq [OF a] have
      "nodes m1 = nodes m @ [node]" "node_type node = NodeType_Directory"
      "files m1 = files m" "tags m1 = tags m" "removed_blobs m1 = removed_blobs m"
      "save_calls m1 = save_calls m"
      by (simp_all add: node_type_def)
    with new show ?thesis
      by (intro exI [of _ "node # new"]) simp
  qed
qed

lemma loop_rerun:
  assumes refl: "\<forall>s. cmp s s"
  shows "createDirectory_loop cmp uuid now no_interleaving dirs parent k m = (r, k', m') \<Longrightarrow>
   nodes M = nodes m' @ ext \<Longrightarrow>
   createDirectory_loop cmp uuid now others dirs parent k2 M = (r, k2, M) \<and>
   resolves cmp (nodes M) parent dirs r"
proof (induction dirs arbitrary: parent k m)
  case Nil
  then show ?case by simp
next
  case (Cons dir dirs)
  let ?P = "\<lambda>n. node_type n = NodeType_Directory \<and> parentID n = parent \<and> name_matches cmp n dir"
  have P: "?P = (\<lambda>n. node_type n = NodeType_Directory \<and> parentID n = parent \<and>
                    (case name n of None \<Rightarrow> False | Some x \<Rightarrow> cmp x dir))"
    by (simp add: name_matches_def)
  show ?case
  proof (cases "findDirectory cmp parent dir m")
    case (Some found)
    with Cons.prems have run:
      "createDirectory_loop cmp uuid now no_interleaving dirs (Some (node_id found)) k m = (r, k', m')"
      by simp
    from loop_extends [OF run] obtain new where "nodes m' = nodes m @ new" by blast
    with Cons.prems(2) have "nodes M = nodes m @ (new @ ext)" by simp
    with Some have f: "find ?P (nodes M) = Some found"
      by (simp add: findDirectory_def find_append_Some)
    then have "findDirectory cmp parent dir M = Some found" by (simp add: findDirectory_def)
    with Cons.IH [OF run Cons.prems(2)] f show ?thesis unfolding P by simp
  next
    case None
    obtain node m1 where a: "addDirectoryNode (uuid k) dir (now k) parent None m = (node, m1)"
      by (cases "addDirectoryNode (uuid k) dir (now k) parent None m") auto
    from None a have "createDirectory_loop cmp uuid now no_interleaving (dir # dirs) parent k m
        = createDirectory_loop cmp uuid now no_interleaving dirs (Some (node_id node)) (Suc k) m1"
      by (simp add: no_interleaving_def)
    with Cons.prems(1) have run:
      "createDirectory_loop cmp uuid now no_interleaving dirs (Some (node_id node)) (Suc k) m1 = (r, k', m')"
      by simp
    from loop_extends [OF run] obtain new where "nodes m' = nodes m1 @ new" by blast
    with addDirectoryNode_eq [OF a] Cons.prems(2)
    have M: "nodes M = nodes m @ (node # new @ ext)" by simp
    from None have "find ?P (nodes m) = None" by (simp add: findDirectory_def)
    then have "find ?P (nodes M) = find ?P (node # new @ ext)"
      unfolding M by (rule find_append_None)
    also have "\<dots> = Some node"
      using addDirectoryNode_eq [OF a] new_directory_matches [where cmp = cmp and nm = dir and parent = parent] refl by simp
    finally have f: "find ?P (nodes M) = Some node" .
    then have "findDirectory cmp parent dir M = Some node" by (simp add: findDirectory_def)
    with Cons.IH [OF run Cons.prems(2)] f show ?thesis unfolding P by simp
  qed
qed

text \<open>
  Claim C7. Two calls of \<open>createDirectory\<close> in succession with the same path, nothing
  else running while they are suspended: the second returns the identifier the first
  returned, adds no node and draws no identifier. The first call appends directory nodes
  only, one for each identifier it draws, and what it returns is the directory that the
  segments of the path lead to from the top, each segment looked up among the directories
  with the parent reached so far (\<open>resolves\<close>). For each segment: when the store has a
  directory with the current parent and a name that compares as equal to the segment,
  the loop goes on with the identifier of the first such node and adds nothing;
  otherwise it appends a new directory with the segment as its name and the current
  parent as its parent to the store that it finds on resuming, and goes on with the
  identifier of the new node. On the empty store the path \<open>a/b/c\<close> creates three nodes, each
  the parent of the next, and returns the identifier of the third.
\<close>

theorem createDirectory_idempotent:
  "((\<forall>s. cmp s s) \<and>
    createDirectory cmp uuid now no_interleaving path k m = (r1, k1, m1) \<and>
    createDirectory cmp uuid now no_interleaving path k1 m1 = (r2, k2, m2) \<longrightarrow>
      r2 = r1 \<and> nodes m2 = nodes m1 \<and> k2 = k1 \<and> m2 = save m1 \<and>
      (\<exists>new. nodes m1 = nodes m @ new \<and> k1 = k + length new \<and>
             (\<forall>n\<in>set new. node_type n = NodeType_Directory)) \<and>
      resolves cmp (nodes m1) None (path_segments path) r1) \<and>
   (find (\<lambda>n. node_type n = NodeType_Directory \<and> parentID n = parent \<and>
               (case name n of None \<Rightarrow> False | Some x \<Rightarrow> cmp x dir)) (nodes m) = Some found \<longrightarrow>
      createDirectory_loop cmp uuid now others (dir # dirs) parent k m
        = createDirectory_loop cmp uuid now others dirs (Some (node_id found)) k m) \<and>
   (find (\<lambda>n. node_type n = NodeType_Directory \<and> parentID n = parent \<and>
               (case name n of None \<Rightarrow> False | Some x \<Rightarrow> cmp x dir)) (nodes m) = None \<longrightarrow>
      createDirectory_loop cmp uuid now others (dir # dirs) parent k m
        = createDirectory_loop cmp uuid now others dirs (Some (uuid k)) (Suc k)
            ((others k m)\<lparr>nodes := nodes (others k m) @
               [\<lparr>node_id = uuid k, created = now k, modified = now k, node_tags = None,
                 index = int (length (nodes (others k m))), parentID = parent,
                 body = DirectoryBody dir, depth = None\<rparr>],
               nodes_frozen := True\<rparr>)) \<and>
   (accent_sensitivity cmp \<longrightarrow>
      createDirectory cmp uuid now no_interleaving ''a/b/c'' 0 empty_model
        = (Some (uuid 2), 3, save (empty_model\<lparr>nodes :=
            [\<lparr>node_id = uuid 0, created = now 0, modified = now 0, node_tags = None,
               index = 0, parentID = None, body = DirectoryBody ''a'', depth = None\<rparr>,
             \<lparr>node_id = uuid 1, created = now 1, modified = now 1, node_tags = None,
               index = 1, parentID = Some (uuid 0), body = DirectoryBody ''b'', depth = None\<rparr>,
             \<lparr>node_id = uuid 2, created = now 2, modified = now 2, node_tags = None,
               index = 2, parentID = Some (uuid 1), body = DirectoryBody ''c'', depth = None\<rparr>],
            nodes_frozen := True\<rparr>)))"
proof -
  let ?dirs = "path_segments path"
  let ?P = "\<lambda>n. node_type n = NodeType_Directory \<and> parentID n = parent \<and>
               (case name n of None \<Rightarrow> False | Some x \<Rightarrow> cmp x dir)"
  have fd: "findDirectory cmp parent dir m = find ?P (nodes m)"
    by (simp add: findDirectory_def name_matches_def)
  have idem: "r2 = r1 \<and> nodes m2 = nodes m1 \<and> k2 = k1 \<and> m2 = save m1 \<and>
      (\<exists>new. nodes m1 = nodes m @ new \<and> k1 = k + length new \<and>
             (\<forall>n\<in>set new. node_type n = NodeType_Directory)) \<and>
      resolves cmp (nodes m1) None ?dirs r1"
    if a: "(\<forall>s. cmp s s) \<and>
    createDirectory cmp uuid now no_interleaving path k m = (r1, k1, m1) \<and>
    createDirectory cmp uuid now no_interleaving path k1 m1 = (r2, k2, m2)"
  proof -
    from a have refl: "\<forall>s. cmp s s" by simp
    obtain m1' where l1: "createDirectory_loop cmp uuid now no_interleaving ?dirs None k m = (r1, k1, m1')"
      and m1: "m1 = save m1'"
      using a by (auto simp: createDirectory_def split: prod.splits)
    have "nodes m1 = nodes m1' @ []" by (simp add: m1 save_def)
    from loop_rerun [OF refl l1 this, of no_interleaving k1]
    have rr: "createDirectory_loop cmp uuid now no_interleaving ?dirs None k1 m1 = (r1, k1, m1)"
      and rs: "resolves cmp (nodes m1) None ?dirs r1"
      by simp_all
    from rr have "createDirectory cmp uuid now no_interleaving path k1 m1 = (r1, k1, save m1)"
      by (simp add: createDirectory_def)
    with a have r: "r2 = r1" "k2 = k1" "m2 = save m1" by simp_all
    from loop_extends [OF l1] obtain new where
      "nodes m1' = nodes m @ new" "k1 = k + length new" "\<forall>n\<in>set new. node_type n = NodeType_Directory"
      by blast
    then have "\<exists>new. nodes m1 = nodes m @ new \<and> k1 = k + length new \<and>
             (\<forall>n\<in>set new. node_type n = NodeType_Directory)"
      by (auto simp: m1 save_def)
    with r rs show ?thesis
      by (simp add: save_def)
  qed
  have reuse: "createDirectory_loop cmp uuid now others (dir # dirs) parent k m
        = createDirectory_loop cmp uuid now others dirs (Some (node_id found)) k m"
    if "find ?P (nodes m) = Some found"
    using that fd by simp
  have create: "createDirectory_loop cmp uuid now others (dir # dirs) parent k m
        = createDirectory_loop cmp uuid now others dirs (Some (uuid k)) (Suc k)
            ((others k m)\<lparr>nodes := nodes (others k m) @
               [\<lparr>node_id = uuid k, created = now k, modified = now k, node_tags = None,
                 index = int (length (nodes (others k m))), parentID = parent,
                 body = DirectoryBody dir, depth = None\<rparr>],
               nodes_frozen := True\<rparr>)"
    if "find ?P (nodes m) = None"
    using that fd by (simp add: addDirectoryNode_def Let_def addNode_def getNextIndex_def)
  have example: "createDirectory cmp uuid now no_interleaving ''a/b/c'' 0 empty_model
        = (Some (uuid 2), 3, save (empty_model\<lparr>nodes :=
            [\<lparr>node_id = uuid 0, created = now 0, modified = now 0, node_tags = None,
               index = 0, parentID = None, body = DirectoryBody ''a'', depth = None\<rparr>,
             \<lparr>node_id = uuid 1, created = now 1, modified = now 1, node_tags = None,
               index = 1, parentID = Some (uuid 0), body = DirectoryBody ''b'', depth = None\<rparr>,
             \<lparr>node_id = uuid 2, created = now 2, modified = now 2, node_tags = None,
               index = 2, parentID = Some (uuid 1), body = DirectoryBody ''c'', depth = None\<rparr>],
            nodes_frozen := True\<rparr>))"
    if s: "accent_sensitivity cmp"
  proof -
    have sg: "path_segments ''a/b/c'' = [''a'', ''b'', ''c'']"
      by code_simp
    have p: "plain ''a''" "plain ''b''" "plain ''c''"
      "map to_lower ''b'' \<noteq> map to_lower ''c''"
      by code_simp+
    with s have nm: "\<not> cmp ''b'' ''c''"
      unfolding accent_sensitivity_def by blast
    show ?thesis
      unfolding createDirectory_def sg using nm
      by (simp add: findDirectory_def addDirectoryNode_def Let_def addNode_def getNextIndex_def
        empty_model_def name_matches_def name_def node_type_def no_interleaving_def
        numeral_2_eq_2 numeral_3_eq_3)
  qed
  from idem reuse create example show ?thesis by blast
qed

theorem createDirectory_idempotent_witness:
  "(\<forall>s. accent_compare s s) \<and> accent_sensitivity accent_compare \<and>
   createDirectory accent_compare ex_uuid ex_now no_interleaving ''a/b/c'' 0 empty_model
     = (Some ''uxx'', 3, ex_created) \<and>
   createDirectory accent_compare ex_uuid ex_now no_interleaving ''a/b/c'' 3 ex_created
     = (Some ''uxx'', 3, save ex_created) \<and>
   map node_id (nodes ex_created) = [''u'', ''ux'', ''uxx''] \<and>
   map parentID (nodes ex_created) = [None, Some ''u'', Some ''ux''] \<and>
   map name (nodes ex_created) = [Some ''a'', Some ''b'', Some ''c''] \<and>
   nodes (save ex_created) = nodes ex_created \<and>
   resolves accent_compare (nodes ex_created) None [''a'', ''b'', ''c''] (Some ''uxx'')"
proof -
  have h: "createDirectory accent_compare ex_uuid ex_now no_interleaving ''a/b/c'' 0 empty_model
     = (Some ''uxx'', 3, ex_created)"
    "createDirectory accent_compare ex_uuid ex_now no_interleaving ''a/b/c'' 3 ex_created
     = (Some ''uxx'', 3, save ex_created)"
    by code_simp+
  have c: "map node_id (nodes ex_created) = [''u'', ''ux'', ''uxx'']"
    "map parentID (nodes ex_created) = [None, Some ''u'', Some ''ux'']"
    "map name (nodes ex_created) = [Some ''a'', Some ''b'', Some ''c'']"
    "path_segments ''a/b/c'' = [''a'', ''b'', ''c'']"
    by code_simp+
  have r: "\<forall>s. accent_compare s s" by (simp add: accent_compare_refl)
  from createDirectory_idempotent [where cmp = accent_compare and uuid = ex_uuid and now = ex_now
        and path = "''a/b/c''" and k = 0 and m = empty_model and ?r1.0 = "Some ''uxx''"
        and ?k1.0 = 3 and ?m1.0 = ex_created and ?r2.0 = "Some ''uxx''" and ?k2.0 = 3
        and ?m2.0 = "save ex_created"] h r
  have "nodes (save ex_created) = nodes ex_created"
    "resolves accent_compare (nodes ex_created) None (path_segments ''a/b/c'') (Some ''uxx'')"
    by blast+
  then have "nodes (save ex_created) = nodes ex_created"
    "resolves accent_compare (nodes ex_created) None [''a'', ''b'', ''c''] (Some ''uxx'')"
    by (simp_all only: c(4))
  with h c(1,2,3) r accent_sensitivity_accent_compare show ?thesis by blast
qed

section \<open>Properties of the directory tree (tree.ts)\<close>


lemma erase_depth [simp]: "erase (n\<lparr>depth := x\<rparr>) = erase n"
  by (simp add: erase_def)












lemma set_depth_Inr: "set_depth r d m = Inr m1 \<Longrightarrow> \<not> nodes_frozen m \<and> m1 = with_depth r d m"
  by (auto simp: set_depth_def split: if_splits)




























lemma createTree_frozen:
  assumes "nodes_frozen m" and "getNode_ref i m = Some r"
  shows "createTree (Suc fuel) m (Some i) d = Some (Inl TypeError)"
  using assms by (simp add: set_depth_def)

lemma js_add1_saturates: "js_add1 (2 ^ 53) = 2 ^ 53"
  by (simp add: js_add1_def exact_int_def)







section \<open>Properties of the persistence coordinator\<close>

lemma save_proceed_fields:
  "in_flight (save_proceed c) = in_flight c @ [writes_started c]"
  "writes_started (save_proceed c) = Suc (writes_started c)"
  "awaiting (save_proceed c) = awaiting c"
  "savePromise (save_proceed c) = Some (writes_started c)"
  "saving (save_proceed c) = True"
  "store (save_proceed c) = store c"
  by (simp_all add: save_proceed_def Let_def set_saving_def setStatus_def writeLibrary_def
      set_savePromise_def emit_def split: prod.splits)

lemma save_proceed_funpow:
  "in_flight ((save_proceed ^^ k) c) = in_flight c @ [writes_started c..<writes_started c + k] \<and>
   writes_started ((save_proceed ^^ k) c) = writes_started c + k \<and>
   awaiting ((save_proceed ^^ k) c) = awaiting c"
proof (induction k)
  case 0
  then show ?case by simp
next
  case (Suc k)
  then show ?case by (simp add: save_proceed_fields upt_Suc_append del: upt_Suc)
qed

lemma calls_while_pending:
  "savePromise c = Some p \<Longrightarrow>
     fold step (replicate N CallSave) c = c\<lparr>awaiting := awaiting c @ replicate N p\<rparr>"
proof (induction N arbitrary: c)
  case 0
  then show ?case by simp
next
  case (Suc N)
  have "step CallSave c = c\<lparr>awaiting := awaiting c @ [p]\<rparr>"
    using Suc.prems by (simp add: save_call_def)
  moreover have "savePromise (c\<lparr>awaiting := awaiting c @ [p]\<rparr>) = Some p"
    using Suc.prems by simp
  ultimately show ?case
    using Suc.IH [of "c\<lparr>awaiting := awaiting c @ [p]\<rparr>"]
    by (simp add: replicate_app_Cons_same)
qed

text \<open>
  Claim C1 does not hold of the code. A write is pending and \<open>N\<close> calls of \<open>save()\<close>
  arrive: all of them await the same promise. When the host completes the write they
  all resume in the same turn and each starts a write of its own: \<open>N\<close> writes are issued,
  as the claim says, but all \<open>N\<close> are in flight together. With three calls in a row the
  second and the third write overlap.
\<close>

theorem save_writes_overlap:
  "in_flight (run (CallSave # replicate N CallSave @ [WriteDone 0]) (init_coordinator m)) = [1..<Suc N] \<and>
   writes_started (run (CallSave # replicate N CallSave @ [WriteDone 0]) (init_coordinator m)) = Suc N \<and>
   awaiting (run (CallSave # replicate N CallSave @ [WriteDone 0]) (init_coordinator m)) = [] \<and>
   in_flight (run [CallSave, CallSave, CallSave, WriteDone 0] (init_coordinator m)) = [1, 2] \<and>
   write_starts (trace (run [CallSave, CallSave, CallSave, WriteDone 0] (init_coordinator m))) = [0, 1, 2] \<and>
   \<not> serialized [] (trace (run [CallSave, CallSave, CallSave, WriteDone 0] (init_coordinator m)))"
proof -
  let ?c0 = "save_proceed (init_coordinator m)"
  have c0: "savePromise ?c0 = Some 0" "in_flight ?c0 = [0]" "writes_started ?c0 = 1" "awaiting ?c0 = []"
    by (simp_all add: save_proceed_fields) (simp_all add: init_coordinator_def)
  let ?c1 = "?c0\<lparr>awaiting := awaiting ?c0 @ replicate N 0\<rparr>"
  have r: "run (CallSave # replicate N CallSave @ [WriteDone 0]) (init_coordinator m)
      = write_done 0 ?c1"
    using calls_while_pending [OF c0(1), of N]
    by (simp add: run_def save_call_def init_coordinator_def)
  let ?c4 = "(set_saving False (set_savePromise None
      (emit (Ev_write_end 0) (?c1\<lparr>in_flight := removeAll 0 (in_flight ?c1)\<rparr>))))\<lparr>awaiting := []\<rparr>"
  have w: "write_done 0 ?c1 = (save_proceed ^^ N) ?c4"
    using c0 by (simp add: write_done_def Let_def set_saving_def set_savePromise_def emit_def)
  have f: "in_flight ?c4 = []" "writes_started ?c4 = 1" "awaiting ?c4 = []"
    using c0 by (simp_all add: set_saving_def set_savePromise_def emit_def)
  have general: "in_flight (write_done 0 ?c1) = [1..<Suc N]"
    "writes_started (write_done 0 ?c1) = Suc N" "awaiting (write_done 0 ?c1) = []"
    unfolding w using save_proceed_funpow [of N ?c4] f by simp_all
  have concrete:
    "in_flight (run [CallSave, CallSave, CallSave, WriteDone 0] (init_coordinator m)) = [1, 2]"
    "write_starts (trace (run [CallSave, CallSave, CallSave, WriteDone 0] (init_coordinator m))) = [0, 1, 2]"
    "\<not> serialized [] (trace (run [CallSave, CallSave, CallSave, WriteDone 0] (init_coordinator m)))"
    by (simp_all add: run_def save_call_def write_done_def save_proceed_def Let_def set_saving_def
        setStatus_def writeLibrary_def set_savePromise_def emit_def init_coordinator_def
        numeral_2_eq_2)
  from general concrete show ?thesis unfolding r by simp
qed

text \<open>
  Claim C4 does not hold of the code. One call of \<open>save()\<close> sets the flag, the first
  status, starts the write, stores the promise and sets the second status with a new
  identifier, all before the host has completed the write: at that moment the write is
  in flight, the flag is set and the field holds the promise. The completion of the write,
  the clearing of the field and of the flag come after the second status.
\<close>

theorem saved_status_before_write_end:
  "trace (run [CallSave] (init_coordinator m))
     = [Ev_saving True,
        Ev_status (Some \<lparr>status_id = 0, message = ''Saving...''\<rparr>),
        Ev_write_start 0 (document m),
        Ev_handle (Some 0),
        Ev_status (Some \<lparr>status_id = 1, message = ''Saved!''\<rparr>)] \<and>
   in_flight (run [CallSave] (init_coordinator m)) = [0] \<and>
   saving (run [CallSave] (init_coordinator m)) = True \<and>
   savePromise (run [CallSave] (init_coordinator m)) = Some 0 \<and>
   status (run [CallSave] (init_coordinator m)) = Some \<lparr>status_id = 1, message = ''Saved!''\<rparr> \<and>
   trace (run [CallSave, WriteDone 0] (init_coordinator m))
     = trace (run [CallSave] (init_coordinator m)) @ [Ev_write_end 0, Ev_handle None, Ev_saving False]"
  by (simp add: run_def save_call_def write_done_def save_proceed_def Let_def set_saving_def
        setStatus_def writeLibrary_def set_savePromise_def emit_def init_coordinator_def)

end
